theory Spec2Isabelle
  imports Complex_Main
begin

section \<open>Python values, errors and the decision index\<close>

text \<open>
  The model follows \<^verbatim>\<open>wdsoo/aropt.py\<close> (class \<^verbatim>\<open>ARO\<close>). Exceptions are values of
  \<open>py_error\<close>; a function that can raise returns \<open>py_error + 'a\<close>, with \<open>Inl\<close> the
  exception. \<open>KeyError\<close> and \<open>IndexError\<close> are the subclasses of Python's
  \<open>LookupError\<close>.
\<close>

datatype py_error =
  KeyError | IndexError | ValueError | TypeError | AttributeError | RuntimeError

definition is_LookupError :: "py_error \<Rightarrow> bool" where
  "is_LookupError e = (e = KeyError \<or> e = IndexError)"

definition raises_LookupError :: "py_error + 'a \<Rightarrow> bool" where
  "raises_LookupError r = (case r of Inl e \<Rightarrow> is_LookupError e | Inr v \<Rightarrow> False)"

text \<open>
  \<open>Index.min()\<close> and \<open>Index.max()\<close> of pandas return the float \<open>nan\<close> on an empty
  index and an integer otherwise; \<open>nan + 1\<close> is \<open>nan\<close>.
\<close>

datatype py_num = Num int | NaN

fun index_min :: "nat list \<Rightarrow> py_num" where
  "index_min [] = NaN"
| "index_min (i # rest) = Num (int (fold min rest i))"

fun index_max :: "nat list \<Rightarrow> py_num" where
  "index_max [] = NaN"
| "index_max (i # rest) = Num (int (fold max rest i))"

fun py_add :: "py_num \<Rightarrow> int \<Rightarrow> py_num" where
  "py_add (Num a) b = Num (a + b)"
| "py_add NaN b = NaN"

text \<open>
  \<open>sim.vars\<close> is the table of decision variables, one row per position of the flat
  decision vector \<open>x\<close>; its index is the position (\<open>0, 1, ...\<close>) and its column
  \<open>name\<close> holds the element each position belongs to. The table is built outside this
  file, so the column is a parameter \<open>names\<close>.
  \<open>name_rows\<close> is \<^verbatim>\<open>self.sim.vars.loc[self.sim.vars['name'] == name].index\<close>.
\<close>

definition name_rows :: "string list \<Rightarrow> string \<Rightarrow> nat list" where
  "name_rows names nm = filter (\<lambda>i. names ! i = nm) [0..<length names]"

text \<open>
  \<^verbatim>\<open>get_x_idx\<close> (lines 62-65). The source has no \<open>raise\<close> and no lookup that can fail:
  every path returns the pair, so every result is an \<open>Inr\<close>.
\<close>

definition get_x_idx :: "string list \<Rightarrow> string \<Rightarrow> py_error + (py_num \<times> py_num)" where
  "get_x_idx names nm =
     (let xmin_idx = index_min (name_rows names nm);
          xmax_idx = py_add (index_max (name_rows names nm)) 1
      in Inr (xmin_idx, xmax_idx))"


text \<open>
  \<^verbatim>\<open>sim.vars['name'].unique()\<close>: the distinct names in the order of their first
  occurrence.
\<close>

fun unique :: "'a list \<Rightarrow> 'a list" where
  "unique [] = []"
| "unique (a # as) = a # unique (filter (\<lambda>b. b \<noteq> a) as)"

text \<open>
  A slice \<^verbatim>\<open>x[lo:hi]\<close> of an array of length \<open>n\<close>, as the list of its positions.
  Python clips a slice to the array and refuses a float bound with \<open>TypeError\<close>. The
  bounds that reach it here come from \<open>get_x_idx\<close> and are never negative.
\<close>

fun x_slice :: "nat \<Rightarrow> py_num \<Rightarrow> py_num \<Rightarrow> py_error + nat list" where
  "x_slice n (Num lo) (Num hi) = Inr [nat lo..<min (nat hi) n]"
| "x_slice n lo hi = Inl TypeError"

text \<open>A loop whose body can raise: the first exception ends it.\<close>

fun foldE :: "('a \<Rightarrow> 's \<Rightarrow> py_error + 's) \<Rightarrow> 'a list \<Rightarrow> 's \<Rightarrow> py_error + 's" where
  "foldE f [] s = Inr s"
| "foldE f (a # as) s = (case f a s of Inl e \<Rightarrow> Inl e | Inr s' \<Rightarrow> foldE f as s')"

section \<open>The network, the simulation and the optimisation object\<close>

text \<open>
  A pandas table with a time index: \<open>index\<close> is the time label of every row and
  \<open>cols\<close> the columns in their order. Assigning a column replaces it in place or
  appends it; reading or dropping a column that is missing raises \<open>KeyError\<close>.
\<close>

record frame =
  index :: "int list"
  cols :: "(string \<times> real list) list"

definition col_get :: "frame \<Rightarrow> string \<Rightarrow> py_error + real list" where
  "col_get f c = (case map_of (cols f) c of None \<Rightarrow> Inl KeyError | Some v \<Rightarrow> Inr v)"

fun assoc_set :: "'k \<Rightarrow> 'v \<Rightarrow> ('k \<times> 'v) list \<Rightarrow> ('k \<times> 'v) list" where
  "assoc_set k v [] = [(k, v)]"
| "assoc_set k v (p # ps) = (if fst p = k then (k, v) # ps else p # assoc_set k v ps)"

definition col_set :: "frame \<Rightarrow> string \<Rightarrow> real list \<Rightarrow> frame" where
  "col_set f c v = f\<lparr>cols := assoc_set c v (cols f)\<rparr>"

definition col_drop :: "frame \<Rightarrow> string \<Rightarrow> py_error + frame" where
  "col_drop f c =
     (if c \<in> fst ` set (cols f) then Inr (f\<lparr>cols := filter (\<lambda>p. fst p \<noteq> c) (cols f)\<rparr>)
      else Inl KeyError)"

text \<open>
  The network's objects are built outside this file. One record carries the attributes
  the optimisation reads: \<open>combs\<close> is \<open>None\<close> for an object without the attribute
  (\<^verbatim>\<open>hasattr(element, 'combs')\<close> is false), \<open>init_flow\<close> is \<open>None\<close> for the float
  \<open>nan\<close>, and the tank attributes are those of a tank. The lists of a tank's
  contributing elements hold references, modelled as the keys of the objects.
\<close>

record element =
  name :: string
  combs :: "string list option"
  vars :: frame
  min_flow :: real
  max_flow :: real
  init_flow :: "real option"
  initial_vol :: real
  min_vol :: "real list"
  max_vol :: real
  final_vol :: real
  inflows :: "string list"
  pumps_inflows :: "string list"
  cv_inflows :: "string list"
  vsp_inflows :: "string list"
  v_inflows :: "string list"
  pumps_outflows :: "string list"
  cv_outflows :: "string list"
  vsp_outflows :: "string list"
  v_outflows :: "string list"

text \<open>
  The network: \<open>objs\<close> is the store of its objects, by key, and every named
  sub-collection is the list of its keys in dictionary order. The same object can stand
  in several collections, and a change of its table is seen through all of them.
\<close>

record network =
  objs :: "string \<Rightarrow> element"
  pump_stations :: "string list"
  vsp :: "string list"
  wells :: "string list"
  control_valves :: "string list"
  valves :: "string list"
  tanks :: "string list"
  comb_elements :: "string list"
  flow_elements :: "string list"
  cost_elements :: "string list"

definition dict_get :: "string list \<Rightarrow> (string \<Rightarrow> element) \<Rightarrow> string \<Rightarrow> py_error + element" where
  "dict_get keys store k = (if k \<in> set keys then Inr (store k) else Inl KeyError)"

text \<open>\<^verbatim>\<open>self.sim.network[name]\<close>: the lookup of an object of any kind by its key.\<close>

definition network_keys :: "network \<Rightarrow> string list" where
  "network_keys net =
     pump_stations net @ vsp net @ wells net @ control_valves net @ valves net @ tanks net"

definition network_getitem :: "network \<Rightarrow> string \<Rightarrow> py_error + element" where
  "network_getitem net k = dict_get (network_keys net) (objs net) k"

text \<open>
  The simulation: its network, the columns \<open>name\<close> and \<open>value\<close> of \<open>sim.vars\<close>
  (\<open>var_value\<close> is \<open>None\<close> until the column is written), the number of time steps and
  the time labels of the horizon.
\<close>

record sim =
  network :: network
  var_names :: "string list"
  var_value :: "real list option"
  num_steps :: nat
  time_range :: "int list"

text \<open>
  The uncertainty of the demand, \<^verbatim>\<open>udata['demand']\<close>: the keys of its \<open>elements\<close> and
  its optional affine map \<open>delta\<close>.
\<close>

record uncertainty =
  u_elements :: "string list"
  delta :: "real list list option"

datatype norm_type = Norm1 | Norm2 | NormInf

text \<open>
  The uncertainty set \<^verbatim>\<open>rso.norm(z.reshape(-1), uset_type) <= robustness\<close>, as the data
  that declare it.
\<close>

datatype uset = NormBall norm_type real

text \<open>
  The decision rule of the library records, for every position of \<open>x\<close>, the entries
  \<open>(row, column)\<close> of \<open>z\<close> it may depend on.
\<close>

type_synonym depend = "(nat \<times> (nat \<times> nat)) set"

text \<open>
  The object \<^verbatim>\<open>ARO\<close>: \<open>x_size\<close> is \<^verbatim>\<open>self.x.shape[0]\<close> and \<open>z_shape\<close> is the shape of
  \<^verbatim>\<open>self.z\<close>, that of the nominal demands: one row per time step and one column per
  uncertain tank. \<open>udata_demand\<close> is \<open>None\<close> when \<^verbatim>\<open>'demand'\<close> is not a key of
  \<^verbatim>\<open>self.udata\<close>. \<open>x_depend\<close> is the state of the decision rule \<^verbatim>\<open>self.x\<close>: the
  dependencies it holds, those \<^verbatim>\<open>adapt_ldr\<close> has bound when the constructor returns
  (line 33).
\<close>

record aro =
  sim :: sim
  robustness :: real
  lou :: real
  uset_type :: norm_type
  udata_demand :: "uncertainty option"
  x_size :: nat
  z_shape :: "nat \<times> nat"
  x_depend :: depend

definition z_set :: "aro \<Rightarrow> uset" where
  "z_set a = NormBall (uset_type a) (robustness a)"

section \<open>The adaptive decision rule\<close>

definition state_count :: "element \<Rightarrow> nat" where
  "state_count e = (case combs e of Some cs \<Rightarrow> length cs | None \<Rightarrow> 1)"

text \<open>
  \<^verbatim>\<open>x[...].adapt(z[...])\<close> adds to the dependencies of the decision rule every pair of a
  position of the first slice and an entry of the second; the library refuses with
  \<open>RuntimeError\<close> to bind a pair the rule already holds. \<open>z_rows_before shape t\<close> is
  \<^verbatim>\<open>z[:t, :]\<close>: the entries \<open>(row, column)\<close> of the rows before \<open>t\<close>.
\<close>

definition z_rows_before :: "nat \<times> nat \<Rightarrow> nat \<Rightarrow> (nat \<times> nat) list" where
  "z_rows_before shape t =
     concat (map (\<lambda>r. map (\<lambda>k. (r, k)) [0..<snd shape]) [0..<min t (fst shape)])"

definition adapt :: "nat list \<Rightarrow> (nat \<times> nat) list \<Rightarrow> depend \<Rightarrow> py_error + depend" where
  "adapt xs zs d =
     (if d \<inter> (set xs \<times> set zs) \<noteq> {} then Inl RuntimeError
      else Inr (d \<union> (set xs \<times> set zs)))"

text \<open>\<^verbatim>\<open>adapt_ldr\<close> (lines 67-79): the inner loop over \<open>t\<close>, then the loop over the names.\<close>

definition adapt_step :: "aro \<Rightarrow> py_num \<Rightarrow> nat \<Rightarrow> nat \<Rightarrow> depend \<Rightarrow> py_error + depend" where
  "adapt_step a xmin_idx c t d =
     (case x_slice (x_size a) (py_add xmin_idx (int (t * c))) (py_add xmin_idx (int ((t + 1) * c))) of
        Inl e \<Rightarrow> Inl e
      | Inr xs \<Rightarrow> adapt xs (z_rows_before (z_shape a) t) d)"

definition adapt_element :: "aro \<Rightarrow> string \<Rightarrow> depend \<Rightarrow> py_error + depend" where
  "adapt_element a element_name d =
     (case network_getitem (network (sim a)) element_name of
        Inl e \<Rightarrow> Inl e
      | Inr element \<Rightarrow>
          (case get_x_idx (var_names (sim a)) element_name of
             Inl e \<Rightarrow> Inl e
           | Inr (xmin_idx, xmax_idx) \<Rightarrow>
               foldE (adapt_step a xmin_idx (state_count element)) [1..<num_steps (sim a)] d))"

definition adapt_ldr :: "aro \<Rightarrow> depend \<Rightarrow> py_error + depend" where
  "adapt_ldr a d = foldE (adapt_element a) (unique (var_names (sim a))) d"

text \<open>
  The layout of the decision vector (section 3 of the specification): the rows of every
  element of \<open>sim.vars\<close> are one contiguous block of \<open>state_count \<times> num_steps\<close>
  positions. \<open>sim.vars\<close> is built outside this file; the predicate states the layout
  the index manager relies on.
\<close>

definition block_of :: "string list \<Rightarrow> string \<Rightarrow> nat" where
  "block_of names nm = length (takeWhile (\<lambda>b. b \<noteq> nm) names)"

definition layout_ok :: "aro \<Rightarrow> bool" where
  "layout_ok a =
     (x_size a = length (var_names (sim a)) \<and>
      list_all (\<lambda>nm. nm \<in> set (network_keys (network (sim a))) \<and>
          name_rows (var_names (sim a)) nm =
            [block_of (var_names (sim a)) nm..<
              block_of (var_names (sim a)) nm
                + state_count (objs (network (sim a)) nm) * num_steps (sim a)])
        (unique (var_names (sim a))))"


text \<open>
  The object as the constructor leaves it when the rule is adapted: the dependencies
  of \<open>x\<close> are those \<open>adapt_ldr\<close> binds, starting from none, and there is one at
  least. On a horizon of one step the inner loop \<^verbatim>\<open>range(1, num_steps)\<close> is empty and
  \<open>x\<close> depends on nothing.
\<close>

definition ldr_ready :: "aro \<Rightarrow> bool" where
  "ldr_ready a = (adapt_ldr a {} = Inr (x_depend a) \<and> x_depend a \<noteq> {})"

section \<open>Robust constraints\<close>

text \<open>
  A constraint handed to \<^verbatim>\<open>self.model.st\<close>: its left side is a slice of \<open>x\<close>, a
  matrix applied to a slice of \<open>x\<close>, or a vector applied to one; its right side is a
  numeric array that may depend on the realisation of \<open>z\<close> (flattened), of shape
  \<open>()\<close>, \<open>(n,)\<close> or \<open>(n, 1)\<close>; \<open>c_forall\<close> is the uncertainty set of
  \<^verbatim>\<open>.forall(self.z_set)\<close>, or \<open>None\<close> for a constraint declared without it.
\<close>

datatype rel = LE | GE | EQ

datatype lhs_expr =
  XSel "nat list"
| MatX "real list list" "nat list"
| VecX "real list" "nat list"

datatype nd = Scalar real | Vec "real list" | Col "real list"

record constr =
  c_lhs :: lhs_expr
  c_rel :: rel
  c_rhs :: "real list \<Rightarrow> nd"
  c_forall :: "uset option"

text \<open>The robust constraint of a comparison: the comparison with the uncertainty set.\<close>

definition forall_constr :: "aro \<Rightarrow> lhs_expr \<Rightarrow> rel \<Rightarrow> (real list \<Rightarrow> nd) \<Rightarrow> constr" where
  "forall_constr a l r h = \<lparr>c_lhs = l, c_rel = r, c_rhs = h, c_forall = Some (z_set a)\<rparr>"

text \<open>
  \<^verbatim>\<open>(comparison).forall(self.z_set)\<close>. The comparison of the library is a robust
  constraint, which has the method \<^verbatim>\<open>forall\<close>, when one of its sides involves \<open>z\<close>: the
  left side through the decision rule \<open>x\<close>, once \<^verbatim>\<open>adapt\<close> has bound a dependency, or
  the right side, which \<open>rand\<close> tells. Otherwise it is a plain linear constraint and
  the lookup of \<^verbatim>\<open>forall\<close> raises \<open>AttributeError\<close>.
\<close>

definition robust ::
  "aro \<Rightarrow> bool \<Rightarrow> lhs_expr \<Rightarrow> rel \<Rightarrow> (real list \<Rightarrow> nd) \<Rightarrow> py_error + constr" where
  "robust a rand l r h =
     (if x_depend a = {} \<and> \<not> rand then Inl AttributeError
      else Inr (forall_constr a l r h))"


definition dot :: "real list \<Rightarrow> real list \<Rightarrow> real" where
  "dot u v = sum_list (map2 (*) u v)"

definition take_x :: "real list \<Rightarrow> nat list \<Rightarrow> real list" where
  "take_x xv ps = map (\<lambda>i. xv ! i) ps"




definition bindE :: "'e + 'a \<Rightarrow> ('a \<Rightarrow> 'e + 'b) \<Rightarrow> 'e + 'b" where
  "bindE m f = (case m of Inl e \<Rightarrow> Inl e | Inr v \<Rightarrow> f v)"

text \<open>The positions of an element's block of the decision vector under the layout.\<close>

definition block :: "aro \<Rightarrow> string \<Rightarrow> nat list" where
  "block a nm =
     [block_of (var_names (sim a)) nm..<
        block_of (var_names (sim a)) nm
          + state_count (objs (network (sim a)) nm) * num_steps (sim a)]"

section \<open>Operating ranges\<close>

text \<open>
  \<^verbatim>\<open>range_constraints\<close> (lines 81-107). \<open>range_unit\<close> is the body of the loops over
  the pump stations, the wells, the control valves and the valves; \<open>range_vsp\<close> is the
  body of the loop over the variable-speed pumps, where \<^verbatim>\<open>self.x[xmin_idx]\<close> is a
  single position and raises \<open>IndexError\<close> outside \<open>x\<close>.
\<close>

definition range_unit :: "aro \<Rightarrow> string \<Rightarrow> constr list \<Rightarrow> py_error + constr list" where
  "range_unit a s_name cs =
     bindE (get_x_idx (var_names (sim a)) s_name) (\<lambda>(xmin_idx, xmax_idx).
     bindE (x_slice (x_size a) xmin_idx xmax_idx) (\<lambda>xs.
     bindE (robust a False (XSel xs) GE (\<lambda>z. Scalar 0)) (\<lambda>c1.
     bindE (robust a False (XSel xs) LE (\<lambda>z. Scalar 1)) (\<lambda>c2.
       Inr (cs @ [c1, c2])))))"

fun x_item :: "nat \<Rightarrow> py_num \<Rightarrow> py_error + nat list" where
  "x_item n (Num i) = (if nat i < n then Inr [nat i] else Inl IndexError)"
| "x_item n NaN = Inl IndexError"

definition range_vsp :: "aro \<Rightarrow> string \<Rightarrow> constr list \<Rightarrow> py_error + constr list" where
  "range_vsp a vsp_name cs =
     (let v = objs (network (sim a)) vsp_name in
      bindE (get_x_idx (var_names (sim a)) vsp_name) (\<lambda>(xmin_idx, xmax_idx).
      bindE (x_slice (x_size a) xmin_idx xmax_idx) (\<lambda>xs.
      bindE (robust a False (XSel xs) GE (\<lambda>z. Scalar (min_flow v))) (\<lambda>c1.
      bindE (robust a False (XSel xs) LE (\<lambda>z. Scalar (max_flow v))) (\<lambda>c2.
        (case init_flow v of
           None \<Rightarrow> Inr (cs @ [c1, c2])
         | Some f \<Rightarrow>
             bindE (x_item (x_size a) xmin_idx) (\<lambda>x0.
             bindE (robust a False (XSel x0) EQ (\<lambda>z. Scalar f)) (\<lambda>c3.
               Inr (cs @ [c1, c2, c3])))))))))"





section \<open>Matrices\<close>

text \<open>
  A numpy matrix is the list of its rows. \<open>fancy_assign m ps v\<close> is the assignment
  \<^verbatim>\<open>m[rows, cols] = v\<close> with two index arrays of one length, \<open>ps\<close> the pairs of their
  entries; the index arrays the source builds lie inside the matrix.
\<close>

definition zeros :: "nat \<Rightarrow> nat \<Rightarrow> real list list" where
  "zeros r c = replicate r (replicate c 0)"

definition mat_set :: "real list list \<Rightarrow> nat \<times> nat \<Rightarrow> real \<Rightarrow> real list list" where
  "mat_set m p v = m[fst p := (m ! fst p)[snd p := v]]"

definition fancy_assign :: "real list list \<Rightarrow> (nat \<times> nat) list \<Rightarrow> real \<Rightarrow> real list list" where
  "fancy_assign m ps v = fold (\<lambda>p m'. mat_set m' p v) ps m"

section \<open>Exclusivity of the discrete states\<close>







section \<open>Scheduling windows\<close>

text \<open>
  The two schedule feeds are read from files; their records are parameters, with the
  time stamps already parsed. A time is an integer.
\<close>

record volume_row =
  vr_start :: int
  vr_end :: int
  vr_vsp :: string
  vr_vol :: real
  vr_type :: string

record change_row =
  cr_start :: int
  cr_end :: int
  cr_vsp :: string

text \<open>
  \<^verbatim>\<open>self.sim.vars.loc[self.sim.vars['name'] == vsp_name, 'network_element'].values[0]\<close>:
  the object of the first row of that name, \<open>IndexError\<close> when there is none. The
  column \<open>network_element\<close> of a row holds the object registered under the row's name,
  so the reference is the name. \<open>set_vars\<close> is the change of the table of the object
  behind a reference, seen by every holder of the reference.
\<close>

definition named_element :: "aro \<Rightarrow> string \<Rightarrow> py_error + string" where
  "named_element a nm = (if nm \<in> set (var_names (sim a)) then Inr nm else Inl IndexError)"

definition set_vars :: "aro \<Rightarrow> string \<Rightarrow> frame \<Rightarrow> aro" where
  "set_vars a k f =
     a\<lparr>sim := (sim a)\<lparr>network := (network (sim a))
        \<lparr>objs := (objs (network (sim a)))(k := (objs (network (sim a)) k)\<lparr>vars := f\<rparr>)\<rparr>\<rparr>\<rparr>"

text \<open>
  \<^verbatim>\<open>df.loc[mask, c] = v\<close> on a column that exists (the builders create it on the line
  before); \<open>aux_zero\<close> is \<^verbatim>\<open>df['aux'] = 0\<close>.
\<close>

definition loc_set :: "frame \<Rightarrow> bool list \<Rightarrow> string \<Rightarrow> real \<Rightarrow> frame" where
  "loc_set f msk c v =
     (case map_of (cols f) c of
        None \<Rightarrow> f
      | Some old \<Rightarrow> col_set f c (map2 (\<lambda>m u. if m then v else u) msk old))"

definition aux_zero :: "frame \<Rightarrow> frame" where
  "aux_zero f = col_set f ''aux'' (replicate (length (index f)) 0)"

datatype inout = In | Out

fun flow_direction :: "inout \<Rightarrow> real" where
  "flow_direction In = 1"
| "flow_direction Out = - 1"

text \<open>\<^verbatim>\<open>np.diag(np.ones(T))\<close> and \<^verbatim>\<open>not_comb_matrix\<close> (lines 130-134).\<close>

definition np_eye :: "nat \<Rightarrow> real list list" where
  "np_eye T = map (\<lambda>i. map (\<lambda>j. if i = j then 1 else 0) [0..<T]) [0..<T]"

definition not_comb_matrix :: "aro \<Rightarrow> inout \<Rightarrow> real list list" where
  "not_comb_matrix a io = map (map (\<lambda>v. flow_direction io * v)) (np_eye (num_steps (sim a)))"

text \<open>
  \<^verbatim>\<open>np.multiply(matrix, aux[:, np.newaxis])\<close>: every row labels its entry of the column,
  with numpy's broadcasting when one of the two has a single row, and \<open>ValueError\<close>
  otherwise. \<open>col_sums\<close> is \<^verbatim>\<open>matrix.sum(axis=0)\<close>.
\<close>

definition row_scale :: "real list list \<Rightarrow> real list \<Rightarrow> py_error + real list list" where
  "row_scale m u =
     (if length u = length m then Inr (map2 (\<lambda>row s. map (\<lambda>v. v * s) row) m u)
      else if length u = 1 then Inr (map (map (\<lambda>v. v * hd u)) m)
      else if length m = 1 then Inr (map (\<lambda>s. map (\<lambda>v. v * s) (hd m)) u)
      else Inl ValueError)"

definition ncols :: "real list list \<Rightarrow> nat" where
  "ncols m = (case m of [] \<Rightarrow> 0 | row # rest \<Rightarrow> length row)"

definition col_sums :: "real list list \<Rightarrow> real list" where
  "col_sums m = map (\<lambda>j. sum_list (map (\<lambda>row. row ! j) m)) [0..<ncols m]"

fun operators :: "string \<Rightarrow> py_error + rel" where
  "operators s =
     (if s = ''le'' then Inr LE else if s = ''ge'' then Inr GE
      else if s = ''eq'' then Inr EQ else Inl KeyError)"

text \<open>
  \<^verbatim>\<open>vsp_volume\<close> (lines 221-243): the body of the loop over the records, and the loop.
  The state is the list of the constraints declared so far and the object \<open>self\<close>,
  whose network the body changes.
\<close>

definition vsp_volume_row :: "volume_row \<Rightarrow> constr list \<times> aro \<Rightarrow> py_error + constr list \<times> aro" where
  "vsp_volume_row row st =
     (let cs = fst st; a = snd st in
      bindE (named_element a (vr_vsp row)) (\<lambda>vsp_ref.
      bindE (get_x_idx (var_names (sim a)) (vr_vsp row)) (\<lambda>(xmin_idx, xmax_idx).
      bindE (x_slice (x_size a) xmin_idx xmax_idx) (\<lambda>vsp_x.
        (let f0 = aux_zero (vars (objs (network (sim a)) vsp_ref));
             msk = map (\<lambda>t. vr_start row \<le> t \<and> t \<le> vr_end row) (index f0);
             f1 = loc_set f0 msk ''aux'' 1
         in bindE (col_get f1 ''aux'') (\<lambda>aux.
            bindE (row_scale (not_comb_matrix a In) aux) (\<lambda>matrix.
              if length (col_sums matrix) \<noteq> length vsp_x then Inl ValueError
              else bindE (operators (vr_type row)) (\<lambda>op.
                   bindE (robust a False (VecX (col_sums matrix) vsp_x) op
                            (\<lambda>z. Scalar (vr_vol row))) (\<lambda>c.
                   bindE (col_drop f1 ''aux'') (\<lambda>f2.
                     Inr (cs @ [c], set_vars a vsp_ref f2)))))))))))"

definition vsp_volume :: "aro \<Rightarrow> volume_row list \<Rightarrow> py_error + constr list \<times> aro" where
  "vsp_volume a df = foldE vsp_volume_row df ([], a)"

text \<open>
  \<^verbatim>\<open>vsp_changes\<close> (lines 245-269). \<open>diff_matrix\<close> is the matrix of lines 260-265: the
  identity, \<open>-1\<close> at the positions \<^verbatim>\<open>(np.diag(rows, k=-1), np.diag(cols, k=-1))\<close> below the
  diagonal, then \<^verbatim>\<open>matrix[0, 0] = 0\<close>, which raises \<open>IndexError\<close> on an empty matrix. The
  body ends with the declaration of the constraint: the table keeps its column \<open>aux\<close>.
\<close>

definition diff_matrix :: "nat \<Rightarrow> py_error + real list list" where
  "diff_matrix T =
     (let matrix = fancy_assign (np_eye T) (zip [1..<T] [0..<T - 1]) (- 1)
      in if T = 0 then Inl IndexError else Inr (mat_set matrix (0, 0) 0))"

definition vsp_changes_row :: "change_row \<Rightarrow> constr list \<times> aro \<Rightarrow> py_error + constr list \<times> aro" where
  "vsp_changes_row row st =
     (let cs = fst st; a = snd st in
      bindE (named_element a (cr_vsp row)) (\<lambda>vsp_ref.
      bindE (get_x_idx (var_names (sim a)) (cr_vsp row)) (\<lambda>(xmin_idx, xmax_idx).
      bindE (x_slice (x_size a) xmin_idx xmax_idx) (\<lambda>vsp_x.
        (let f0 = aux_zero (vars (objs (network (sim a)) vsp_ref));
             msk = map (\<lambda>t. cr_start row < t \<and> t < cr_end row) (index f0);
             f1 = loc_set f0 msk ''aux'' 1
         in bindE (diff_matrix (num_steps (sim a))) (\<lambda>matrix.
            bindE (col_get f1 ''aux'') (\<lambda>aux.
            bindE (row_scale matrix aux) (\<lambda>matrix.
              if ncols matrix \<noteq> length vsp_x then Inl ValueError
              else bindE (robust a False (MatX matrix vsp_x) EQ (\<lambda>z. Scalar 0)) (\<lambda>c.
                     Inr (cs @ [c], set_vars a vsp_ref f1))))))))))"

definition vsp_changes :: "aro \<Rightarrow> change_row list \<Rightarrow> py_error + constr list \<times> aro" where
  "vsp_changes a df = foldE vsp_changes_row df ([], a)"

text \<open>
  The no-change matrix entry by entry: rows outside the open window are zero; a row
  \<open>i > 0\<close> inside it has \<open>1\<close> on the diagonal and \<open>-1\<close> before it.
\<close>

definition in_window :: "change_row \<Rightarrow> int \<Rightarrow> bool" where
  "in_window row t = (cr_start row < t \<and> t < cr_end row)"

definition change_entry :: "change_row \<Rightarrow> int list \<Rightarrow> nat \<Rightarrow> nat \<Rightarrow> real" where
  "change_entry row labels i j =
     (if in_window row (labels ! i)
      then (if i = j \<and> i \<noteq> 0 then 1 else if i = Suc j then - 1 else 0)
      else 0)"

definition change_matrix :: "change_row \<Rightarrow> int list \<Rightarrow> nat \<Rightarrow> real list list" where
  "change_matrix row labels T = map (\<lambda>i. map (\<lambda>j. change_entry row labels i j) [0..<T]) [0..<T]"


section \<open>Mass balance\<close>

text \<open>
  \<open>cumsum\<close> is the running sum of pandas and numpy. The arrays of shape \<open>(n, 1)\<close> of
  \<^verbatim>\<open>mass_balance\<close> are the lists of their entries. \<open>vec_assign arr lo hi v\<close> is
  \<^verbatim>\<open>arr[lo:hi] = v\<close> for a column \<open>v\<close>: numpy takes a value of the length of the slice
  or of length 1 and raises \<open>ValueError\<close> for any other; \<open>vec_fill\<close> is the assignment
  of a scalar.
\<close>

fun cumsum_from :: "real \<Rightarrow> real list \<Rightarrow> real list" where
  "cumsum_from acc [] = []"
| "cumsum_from acc (v # vs) = (acc + v) # cumsum_from (acc + v) vs"

definition cumsum :: "real list \<Rightarrow> real list" where
  "cumsum vs = cumsum_from 0 vs"

definition vec_assign :: "real list \<Rightarrow> nat \<Rightarrow> nat \<Rightarrow> real list \<Rightarrow> py_error + real list" where
  "vec_assign arr lo hi v =
     (let m = min hi (length arr) - lo in
      if length v = m \<or> length v = 1
      then Inr (map (\<lambda>i. if lo \<le> i \<and> i < hi
                          then (if length v = m then v ! (i - lo) else hd v)
                          else arr ! i) [0..<length arr])
      else Inl ValueError)"

definition vec_fill :: "real list \<Rightarrow> nat \<Rightarrow> nat \<Rightarrow> real \<Rightarrow> real list" where
  "vec_fill arr lo hi s = map (\<lambda>i. if lo \<le> i \<and> i < hi then s else arr ! i) [0..<length arr]"

text \<open>
  \<open>mat_assign n lhs r0 r1 xmin xmax mat\<close> is \<^verbatim>\<open>lhs[r0:r1, xmin:xmax] = mat\<close> on a
  matrix of \<open>n\<close> columns: the slices are clipped to the matrix, a float bound is a
  \<open>TypeError\<close>, and \<open>mat\<close> must have the shape of the target, up to numpy's
  broadcasting of an axis of length 1; otherwise \<open>ValueError\<close>.
\<close>

fun mat_assign ::
  "nat \<Rightarrow> real list list \<Rightarrow> nat \<Rightarrow> nat \<Rightarrow> py_num \<Rightarrow> py_num \<Rightarrow> real list list
     \<Rightarrow> py_error + real list list" where
  "mat_assign n lhs r0 r1 (Num xmin) (Num xmax) mat =
     (let c0 = nat xmin; c1 = min (nat xmax) n;
          R = min r1 (length lhs) - r0; C = c1 - c0;
          mr = length mat; mc = ncols mat
      in if (mr = R \<or> mr = 1) \<and> (mc = C \<or> mc = 1)
         then Inr (map (\<lambda>i. map (\<lambda>j.
                 if r0 \<le> i \<and> i < r1 \<and> c0 \<le> j \<and> j < c1
                 then mat ! (if mr = R then i - r0 else 0) ! (if mc = C then j - c0 else 0)
                 else lhs ! i ! j) [0..<n]) [0..<length lhs])
         else Inl ValueError)"
| "mat_assign n lhs r0 r1 xmin xmax mat = Inl TypeError"

text \<open>
  \<^verbatim>\<open>matrix * element.vars[param].to_numpy()\<close>: every column times its entry of the
  vector, with numpy's broadcasting of a length 1, and \<open>ValueError\<close> otherwise.
\<close>

definition scale_cols :: "real list list \<Rightarrow> real list \<Rightarrow> py_error + real list list" where
  "scale_cols m u =
     (if length u = ncols m then Inr (map (\<lambda>row. map2 (*) row u) m)
      else if length u = 1 then Inr (map (map (\<lambda>v. v * hd u)) m)
      else if ncols m = 1 then Inr (map (\<lambda>row. map (\<lambda>w. hd row * w) u) m)
      else Inl ValueError)"

text \<open>
  \<^verbatim>\<open>cumulative_comb_matrix\<close> (lines 120-128): \<open>cum_rows\<close> and \<open>cum_cols\<close> are the two
  index arrays, \<^verbatim>\<open>np.hstack\<close> of one array per time step, which raises \<open>ValueError\<close>
  for no time step. \<^verbatim>\<open>cumulative_not_comb_matrix\<close> (lines 136-140) assigns at
  \<^verbatim>\<open>np.tril_indices(T)\<close>, the positions on and below the diagonal.
\<close>

definition cum_rows :: "nat \<Rightarrow> nat \<Rightarrow> nat list" where
  "cum_rows T c = concat (map (\<lambda>i. replicate (c * i) (i - 1)) [1..<T + 1])"

definition cum_cols :: "nat \<Rightarrow> nat \<Rightarrow> nat list" where
  "cum_cols T c = concat (map (\<lambda>t. [0..<c * (t + 1)]) [0..<T])"

definition cumulative_comb_matrix ::
  "aro \<Rightarrow> element \<Rightarrow> inout \<Rightarrow> string option \<Rightarrow> py_error + real list list" where
  "cumulative_comb_matrix a element io param =
     (case combs element of
        None \<Rightarrow> Inl AttributeError
      | Some cmb \<Rightarrow>
          if num_steps (sim a) = 0 then Inl ValueError
          else (let matrix = fancy_assign
                      (zeros (num_steps (sim a)) (num_steps (sim a) * length cmb))
                      (zip (cum_rows (num_steps (sim a)) (length cmb))
                           (cum_cols (num_steps (sim a)) (length cmb)))
                      (flow_direction io)
                in case param of
                     None \<Rightarrow> Inr matrix
                   | Some p \<Rightarrow> bindE (col_get (vars element) p) (\<lambda>v. scale_cols matrix v)))"

definition tril_indices :: "nat \<Rightarrow> (nat \<times> nat) list" where
  "tril_indices n = concat (map (\<lambda>i. map (\<lambda>j. (i, j)) [0..<i + 1]) [0..<n])"

definition cumulative_not_comb_matrix :: "aro \<Rightarrow> inout \<Rightarrow> real list list" where
  "cumulative_not_comb_matrix a io =
     fancy_assign (zeros (num_steps (sim a)) (num_steps (sim a)))
       (tril_indices (num_steps (sim a))) (flow_direction io)"

text \<open>\<^verbatim>\<open>get_cumulative_flow_matrix\<close> (lines 154-162).\<close>

definition get_cumulative_flow_matrix :: "aro \<Rightarrow> string \<Rightarrow> inout \<Rightarrow> py_error + real list list" where
  "get_cumulative_flow_matrix a element_name io =
     bindE (dict_get (flow_elements (network (sim a))) (objs (network (sim a))) element_name)
       (\<lambda>element.
          case combs element of
            Some cmb \<Rightarrow> cumulative_comb_matrix a element io (Some ''flow'')
          | None \<Rightarrow> Inr (cumulative_not_comb_matrix a io))"

text \<open>
  \<^verbatim>\<open>mass_balance\<close> (lines 164-208). \<open>mb_arrays\<close> holds the five arrays the loop
  fills; \<open>mass_balance_element\<close> is the body of the inner loop over the names of the
  table and \<open>mass_balance_tank\<close> the body of the loop over the tanks. A member of
  \<open>tank.inflows\<close> or of the lists of outflows is an object, found by its reference.
\<close>

record mb_arrays =
  lhs :: "real list list"
  lhs_init :: "real list"
  rhs_min :: "real list"
  rhs_max :: "real list"
  dem :: "real list"

definition outflows :: "element \<Rightarrow> string list" where
  "outflows tank = pumps_outflows tank @ vsp_outflows tank @ v_outflows tank @ cv_outflows tank"

definition mass_balance_element ::
  "aro \<Rightarrow> element \<Rightarrow> nat \<Rightarrow> string \<Rightarrow> real list list \<Rightarrow> py_error + real list list" where
  "mass_balance_element a tank tank_idx element_name m =
     bindE (dict_get (flow_elements (network (sim a))) (objs (network (sim a))) element_name)
       (\<lambda>element.
     bindE (get_x_idx (var_names (sim a)) element_name) (\<lambda>(xmin_idx, xmax_idx).
       if element_name \<in> set (inflows tank)
       then bindE (get_cumulative_flow_matrix a element_name In) (\<lambda>mat.
              mat_assign (x_size a) m (tank_idx * num_steps (sim a))
                ((tank_idx + 1) * num_steps (sim a)) xmin_idx xmax_idx mat)
       else if element_name \<in> set (outflows tank)
       then bindE (get_cumulative_flow_matrix a element_name Out) (\<lambda>mat.
              mat_assign (x_size a) m (tank_idx * num_steps (sim a))
                ((tank_idx + 1) * num_steps (sim a)) xmin_idx xmax_idx mat)
       else Inr m))"

definition mass_balance_tank :: "aro \<Rightarrow> nat \<times> string \<Rightarrow> mb_arrays \<Rightarrow> py_error + mb_arrays" where
  "mass_balance_tank a p st =
     (let tank_idx = fst p; tank = objs (network (sim a)) (snd p);
          lo = tank_idx * num_steps (sim a); hi = (tank_idx + 1) * num_steps (sim a)
      in bindE (col_get (vars tank) ''demand'') (\<lambda>d.
         bindE (vec_assign (dem st) lo hi (cumsum d)) (\<lambda>dem'.
         bindE (vec_assign (rhs_min st) lo hi (drop 1 (min_vol tank) @ [final_vol tank]))
           (\<lambda>rhs_min'.
         bindE (foldE (mass_balance_element a tank tank_idx) (unique (var_names (sim a))) (lhs st))
           (\<lambda>lhs'.
           Inr \<lparr>lhs = lhs',
                lhs_init = vec_fill (lhs_init st) lo hi (initial_vol tank),
                rhs_min = rhs_min',
                rhs_max = vec_fill (rhs_max st) lo hi (max_vol tank),
                dem = dem'\<rparr>)))))"

text \<open>
  Arithmetic of two one-dimensional arrays with numpy's broadcasting of a length 1 (a
  squeezed array of one entry is a scalar, which broadcasts the same way).
\<close>

definition np_op :: "(real \<Rightarrow> real \<Rightarrow> real) \<Rightarrow> real list \<Rightarrow> real list \<Rightarrow> real list" where
  "np_op f u v =
     (if length u = length v then map2 f u v
      else if length u = 1 then map (f (hd u)) v
      else map (\<lambda>w. f w (hd v)) u)"

definition mass_balance :: "aro \<Rightarrow> string list \<Rightarrow> real list list option \<Rightarrow> py_error + constr list" where
  "mass_balance a tks affine_map =
     (let T = num_steps (sim a); ntanks = length tks in
      if ntanks = 0 then Inr []
      else bindE (foldE (mass_balance_tank a) (enumerate 0 tks)
                   \<lparr>lhs = zeros (ntanks * T) (x_size a),
                    lhs_init = replicate (ntanks * T) 0,
                    rhs_min = replicate (ntanks * T) 0,
                    rhs_max = replicate (ntanks * T) 0,
                    dem = replicate (ntanks * T) 0\<rparr>)
             (\<lambda>st.
                case affine_map of
                  None \<Rightarrow>
                    bindE (robust a False (MatX (lhs st) [0..<x_size a]) LE
                             (\<lambda>z. Vec (map2 (-) (map2 (+) (rhs_max st) (dem st)) (lhs_init st))))
                      (\<lambda>c1.
                    bindE (robust a False (MatX (lhs st) [0..<x_size a]) GE
                             (\<lambda>z. Vec (map2 (-) (map2 (+) (rhs_min st) (dem st)) (lhs_init st))))
                      (\<lambda>c2. Inr [c1, c2]))
                | Some am \<Rightarrow>
                    if fst (z_shape a) * snd (z_shape a) = ntanks * T
                       \<or> fst (z_shape a) * snd (z_shape a) = 1 \<or> ntanks * T = 1
                    then bindE (robust a True (MatX (lhs st) [0..<x_size a]) LE
                                  (\<lambda>z. Vec (np_op (-)
                                     (np_op (+) (rhs_max st)
                                        (np_op (*) (map (\<lambda>v. 1 + lou a * v) z) (dem st)))
                                     (lhs_init st)))) (\<lambda>c1.
                         bindE (robust a True (MatX (lhs st) [0..<x_size a]) GE
                                  (\<lambda>z. Vec (np_op (-)
                                     (np_op (+) (rhs_min st)
                                        (np_op (*) (map (\<lambda>v. 1 + lou a * v) z) (dem st)))
                                     (lhs_init st)))) (\<lambda>c2. Inr [c1, c2]))
                    else Inl ValueError))"

text \<open>\<^verbatim>\<open>build_mass_balance\<close> (lines 210-219).\<close>

definition build_mass_balance :: "aro \<Rightarrow> py_error + constr list" where
  "build_mass_balance a =
     (case udata_demand a of
        Some u \<Rightarrow>
          (let utanks = filter (\<lambda>nm. nm \<in> set (u_elements u)) (tanks (network (sim a)));
               dtanks = filter (\<lambda>nm. nm \<notin> set utanks) (tanks (network (sim a)))
           in bindE (mass_balance a utanks (delta u)) (\<lambda>cs1.
              bindE (mass_balance a dtanks None) (\<lambda>cs2. Inr (cs1 @ cs2))))
      | None \<Rightarrow>
          bindE (mass_balance a (tanks (network (sim a))) None) (\<lambda>cs2. Inr cs2))"

text \<open>
  The coefficient of the position \<open>i\<close> of \<open>x\<close> in the cumulative net inflow of a tank
  at step \<open>t\<close>: the position belongs to the element \<open>names ! i\<close> and stands at the
  offset \<open>off\<close> of its block, that is at step \<open>off div state_count\<close>; it counts when that
  step is at most \<open>t\<close>, with the sign of the element's direction (\<open>+1\<close> for an inflow
  of the tank, \<open>-1\<close> for an outflow, 0 for neither) and, for a discrete-state element,
  the value of its \<open>flow\<close> parameter at the offset.
\<close>

definition flow_sign :: "element \<Rightarrow> string \<Rightarrow> real" where
  "flow_sign tank nm =
     (if nm \<in> set (inflows tank) then 1 else if nm \<in> set (outflows tank) then - 1 else 0)"

definition flow_param :: "element \<Rightarrow> nat \<Rightarrow> real" where
  "flow_param e off =
     (case combs e of
        None \<Rightarrow> 1
      | Some cmb \<Rightarrow> (case map_of (cols (vars e)) ''flow'' of None \<Rightarrow> 0 | Some v \<Rightarrow> v ! off))"

definition flow_coef :: "aro \<Rightarrow> element \<Rightarrow> nat \<Rightarrow> nat \<Rightarrow> real" where
  "flow_coef a tank t i =
     (let nm = var_names (sim a) ! i; e = objs (network (sim a)) nm;
          off = i - block_of (var_names (sim a)) nm
      in if off < state_count e * (t + 1) then flow_sign tank nm * flow_param e off else 0)"

text \<open>
  What the mass balance needs of the network: every element of the table is a flow
  element, and a discrete-state one has a \<open>flow\<close> column with one entry per position
  of its block; every tank has a \<open>demand\<close> column and a \<open>min_vol\<close> with one entry per
  time step.
\<close>

definition flows_ok :: "aro \<Rightarrow> bool" where
  "flows_ok a =
     list_all (\<lambda>nm. nm \<in> set (flow_elements (network (sim a))) \<and>
        (case combs (objs (network (sim a)) nm) of
           None \<Rightarrow> True
         | Some cmb \<Rightarrow>
             (case map_of (cols (vars (objs (network (sim a)) nm))) ''flow'' of
                None \<Rightarrow> False
              | Some v \<Rightarrow> length v = num_steps (sim a) * length cmb)))
       (unique (var_names (sim a)))"

definition demand_of :: "element \<Rightarrow> real list" where
  "demand_of tank = (case map_of (cols (vars tank)) ''demand'' of None \<Rightarrow> [] | Some d \<Rightarrow> d)"

definition tanks_ok :: "aro \<Rightarrow> string list \<Rightarrow> bool" where
  "tanks_ok a tks =
     list_all (\<lambda>k. map_of (cols (vars (objs (network (sim a)) k))) ''demand'' \<noteq> None
        \<and> length (demand_of (objs (network (sim a)) k)) = num_steps (sim a)
        \<and> length (min_vol (objs (network (sim a)) k)) = num_steps (sim a)) tks"

text \<open>
  The minimum-volume bound of the code at step \<open>t\<close>: the entry \<open>t\<close> of
  \<^verbatim>\<open>np.append(tank.min_vol[1:], tank.final_vol)\<close>.
\<close>

definition min_bound :: "element \<Rightarrow> nat \<Rightarrow> nat \<Rightarrow> real" where
  "min_bound tank T t = (if t = T - 1 then final_vol tank else min_vol tank ! (t + 1))"

definition cum_demand :: "element \<Rightarrow> nat \<Rightarrow> real" where
  "cum_demand tank t = sum_list (take (t + 1) (demand_of tank))"

text \<open>
  The arrays of \<open>mass_balance\<close> row by row: \<open>mb_shape\<close> is their shape, \<open>mb_row\<close> says
  that row \<open>r\<close> holds the values of a tank at step \<open>t\<close>, and \<open>mb_same\<close> that row \<open>r\<close>
  is the same in two states.
\<close>

definition mb_shape :: "nat \<Rightarrow> nat \<Rightarrow> mb_arrays \<Rightarrow> bool" where
  "mb_shape n N st =
     (length (lhs st) = n \<and> (\<forall>r<n. length (lhs st ! r) = N) \<and> length (lhs_init st) = n
      \<and> length (rhs_min st) = n \<and> length (rhs_max st) = n \<and> length (dem st) = n)"

definition mb_row :: "aro \<Rightarrow> element \<Rightarrow> nat \<Rightarrow> mb_arrays \<Rightarrow> nat \<Rightarrow> bool" where
  "mb_row a tank t st r =
     (dem st ! r = cum_demand tank t
      \<and> rhs_min st ! r = min_bound tank (num_steps (sim a)) t
      \<and> rhs_max st ! r = max_vol tank
      \<and> lhs_init st ! r = initial_vol tank
      \<and> (\<forall>i<x_size a. lhs st ! r ! i = flow_coef a tank t i))"

definition mb_same :: "nat \<Rightarrow> mb_arrays \<Rightarrow> mb_arrays \<Rightarrow> nat \<Rightarrow> bool" where
  "mb_same N st st' r =
     (dem st' ! r = dem st ! r \<and> rhs_min st' ! r = rhs_min st ! r
      \<and> rhs_max st' ! r = rhs_max st ! r \<and> lhs_init st' ! r = lhs_init st ! r
      \<and> (\<forall>i<N. lhs st' ! r ! i = lhs st ! r ! i))"


definition demand_offset :: "aro \<Rightarrow> real list list option \<Rightarrow> element \<Rightarrow> nat \<Rightarrow> real \<Rightarrow> real" where
  "demand_offset a affine_map tank t zv =
     (case affine_map of
        None \<Rightarrow> cum_demand tank t
      | Some am \<Rightarrow> (1 + lou a * zv) * cum_demand tank t)"


section \<open>The solver and the extraction of the policy\<close>

text \<open>
  The table \<^verbatim>\<open>GRB_STATUS\<close> (line 14), a dictionary: a key that is missing raises
  \<open>KeyError\<close>.
\<close>

definition GRB_STATUS :: "int \<Rightarrow> string option" where
  "GRB_STATUS = map_of [(1, ''LOADED''), (2, ''OPTIMAL''), (3, ''INFEASIBLE''),
                        (4, ''INF_OR_UNBD''), (5, ''UNBOUNDED'')]"

text \<open>
  The solver is outside this file: what it leaves in \<^verbatim>\<open>self.model.solution\<close> is a
  parameter. A solution holds the status code, the objective value and the solved
  decision rule of \<open>x\<close>, an affine function of \<open>z\<close>: \<open>x_const\<close> is its constant and
  row \<open>i\<close> of \<open>x_coef\<close> holds the coefficients of \<open>x[i]\<close> on the entries of \<open>z\<close>,
  flattened. When the solver ends without a solution, as it does on an infeasible or an
  unbounded model, the library leaves \<open>None\<close>. The library evaluates
  \<^verbatim>\<open>self.x(self.z.assign(sample))\<close> as the constant plus the coefficients applied to the
  sample.
\<close>

record solution =
  sol_status :: int
  sol_obj :: real
  x_const :: "real list"
  x_coef :: "real list list"

text \<open>
  \<^verbatim>\<open>retrieve_decision_vars\<close> (lines 331-335). The sample is flattened; a sample of one
  entry is broadcast to the shape of \<open>z\<close>, and any other sample that has not the size
  of \<open>z\<close> is refused.
\<close>

definition retrieve_decision_vars :: "aro \<Rightarrow> solution \<Rightarrow> real list option \<Rightarrow> py_error + real list" where
  "retrieve_decision_vars a sol sample =
     (let s = (case sample of
                 None \<Rightarrow> replicate (fst (z_shape a) * snd (z_shape a)) 0
               | Some s \<Rightarrow>
                   if length s = 1 then replicate (fst (z_shape a) * snd (z_shape a)) (hd s)
                   else s)
      in if length s \<noteq> fst (z_shape a) * snd (z_shape a) then Inl ValueError
         else Inr (map2 (\<lambda>c row. c + dot row s) (x_const sol) (x_coef sol)))"

text \<open>
  A slice of a numpy array, and the assignment of a numpy array to a column of a table,
  which raises \<open>ValueError\<close> unless the array has one entry per row.
\<close>

definition np_slice :: "real list \<Rightarrow> py_num \<Rightarrow> py_num \<Rightarrow> py_error + real list" where
  "np_slice xv lo hi = bindE (x_slice (length xv) lo hi) (\<lambda>ps. Inr (take_x xv ps))"

definition col_assign :: "frame \<Rightarrow> string \<Rightarrow> real list \<Rightarrow> py_error + frame" where
  "col_assign f c v = (if length v = length (index f) then Inr (col_set f c v) else Inl ValueError)"

text \<open>
  \<^verbatim>\<open>tanks_balance\<close> (lines 346-371). The local table \<open>df\<close> is the list of its columns,
  starting with the column of zeros. Every table of the network is indexed by the time
  labels of the horizon (those of a discrete-state element once per state), so the
  merges on the index and the assignments of a series to a column put the rows side by
  side in their order. \<open>group_sum\<close> is \<^verbatim>\<open>groupby(level='time').sum()\<close>: one row per time
  label, in the order of the labels.
\<close>

definition group_sum :: "int list \<Rightarrow> real list \<Rightarrow> real list" where
  "group_sum labels vals =
     map (\<lambda>t. sum_list (map snd (filter (\<lambda>p. fst p = t) (zip labels vals))))
       (sort (remdups labels))"

definition comb_flow :: "aro \<Rightarrow> real \<Rightarrow> string \<Rightarrow> real list list \<Rightarrow> py_error + real list list" where
  "comb_flow a dir x df =
     bindE (col_get (vars (objs (network (sim a)) x)) ''flow'') (\<lambda>flow.
     bindE (col_get (vars (objs (network (sim a)) x)) ''value'') (\<lambda>val.
       Inr (df @ [map (\<lambda>v. dir * v)
                    (group_sum (index (vars (objs (network (sim a)) x))) (map2 (*) flow val))])))"

definition plain_flow :: "aro \<Rightarrow> real \<Rightarrow> string \<Rightarrow> real list list \<Rightarrow> py_error + real list list" where
  "plain_flow a dir x df =
     bindE (col_get (vars (objs (network (sim a)) x)) ''value'') (\<lambda>val.
       Inr (df @ [map (\<lambda>v. dir * v) val]))"

definition row_sums :: "nat \<Rightarrow> real list list \<Rightarrow> real list" where
  "row_sums n df = foldl (map2 (+)) (replicate n 0) df"

definition tank_series :: "aro \<Rightarrow> string \<Rightarrow> py_error + real list \<times> real list" where
  "tank_series a t_name =
     (let t = objs (network (sim a)) t_name in
      bindE (foldE (comb_flow a 1) (pumps_inflows t @ cv_inflows t)
               [replicate (length (time_range (sim a))) 0]) (\<lambda>df.
      bindE (foldE (plain_flow a 1) (vsp_inflows t @ v_inflows t) df) (\<lambda>df.
      bindE (foldE (comb_flow a (- 1)) (pumps_outflows t @ cv_outflows t) df) (\<lambda>df.
      bindE (foldE (plain_flow a (- 1)) (vsp_outflows t @ v_outflows t) df) (\<lambda>df.
        (let inflow = row_sums (length (time_range (sim a))) df in
         bindE (col_get (vars t) ''demand'') (\<lambda>demand.
           Inr (map (\<lambda>v. initial_vol t + v) (cumsum (map2 (+) inflow (map uminus demand))),
                inflow))))))))"

definition tanks_balance_tank :: "string \<Rightarrow> aro \<Rightarrow> py_error + aro" where
  "tanks_balance_tank t_name a =
     bindE (tank_series a t_name) (\<lambda>(volume, inflow).
       Inr (set_vars a t_name
              (col_set (col_set (vars (objs (network (sim a)) t_name)) ''value'' volume)
                 ''inflow'' inflow)))"

definition tanks_balance :: "aro \<Rightarrow> py_error + aro" where
  "tanks_balance a = foldE tanks_balance_tank (tanks (network (sim a))) a"

text \<open>
  \<^verbatim>\<open>get_results\<close> (lines 337-344): \<open>write_value\<close> is the body of its loop, the assignment
  \<^verbatim>\<open>self.sim.network[name].vars['value'] = x[xmin_idx: xmax_idx]\<close>, and \<open>set_var_value\<close>
  is \<^verbatim>\<open>self.sim.vars['value'] = x\<close>.
\<close>

definition write_value :: "real list \<Rightarrow> string \<Rightarrow> aro \<Rightarrow> py_error + aro" where
  "write_value x nm a =
     bindE (get_x_idx (var_names (sim a)) nm) (\<lambda>(xmin_idx, xmax_idx).
     bindE (np_slice x xmin_idx xmax_idx) (\<lambda>vals.
     bindE (network_getitem (network (sim a)) nm) (\<lambda>el.
     bindE (col_assign (vars el) ''value'' vals) (\<lambda>f.
       Inr (set_vars a nm f)))))"

definition set_var_value :: "real list \<Rightarrow> aro \<Rightarrow> py_error + aro" where
  "set_var_value x a =
     (if length x = length (var_names (sim a))
      then Inr (a\<lparr>sim := (sim a)\<lparr>var_value := Some x\<rparr>\<rparr>)
      else Inl ValueError)"

definition get_results :: "aro \<Rightarrow> solution \<Rightarrow> real list option \<Rightarrow> py_error + aro" where
  "get_results a sol sample =
     bindE (retrieve_decision_vars a sol sample) (\<lambda>x.
     bindE (foldE (write_value x) (unique (var_names (sim a))) a) (\<lambda>a1.
     bindE (set_var_value x a1) (\<lambda>a2.
       tanks_balance a2)))"

text \<open>
  \<^verbatim>\<open>solve\<close> (lines 304-309), after the call of the solver, whose result \<open>res\<close> is what
  line 305 leaves in \<^verbatim>\<open>self.model.solution\<close>. Line 306 reads the objective value with
  \<^verbatim>\<open>self.model.get()\<close>, which raises \<open>RuntimeError\<close> when there is no solution, then
  the solution and its status code. Then come the translation of the status, the
  extraction of the policy, and the pair returned, with the object as the extraction
  leaves it.
\<close>

definition model_get :: "solution option \<Rightarrow> py_error + solution" where
  "model_get res = (case res of None \<Rightarrow> Inl RuntimeError | Some sol \<Rightarrow> Inr sol)"

definition solve :: "aro \<Rightarrow> solution option \<Rightarrow> py_error + (string \<times> real) \<times> aro" where
  "solve a res =
     bindE (model_get res) (\<lambda>sol.
       (case GRB_STATUS (sol_status sol) of
          None \<Rightarrow> Inl KeyError
        | Some status \<Rightarrow>
            bindE (get_results a sol None) (\<lambda>a'. Inr ((status, sol_obj sol), a'))))"

text \<open>
  What the extraction needs of the network: no element of the decision table is a tank,
  and no tank stands in a list of inflows or outflows of a tank.
\<close>

definition flow_refs :: "element \<Rightarrow> string list" where
  "flow_refs t = pumps_inflows t @ cv_inflows t @ vsp_inflows t @ v_inflows t
                 @ pumps_outflows t @ cv_outflows t @ vsp_outflows t @ v_outflows t"

definition extraction_ok :: "aro \<Rightarrow> bool" where
  "extraction_ok a =
     (list_all (\<lambda>nm. nm \<notin> set (tanks (network (sim a)))) (var_names (sim a))
      \<and> list_all (\<lambda>t. list_all (\<lambda>x. x \<notin> set (tanks (network (sim a))))
                       (flow_refs (objs (network (sim a)) t)))
          (tanks (network (sim a))))"

text \<open>
  \<open>skeleton\<close> forgets what the extraction writes, the columns of the tables and the
  column \<open>value\<close> of \<open>sim.vars\<close>; \<open>vars_of\<close> is the table of an object; \<open>value_frame\<close>
  is the table \<open>write_value\<close> stores.
\<close>

definition vars_of :: "aro \<Rightarrow> string \<Rightarrow> frame" where
  "vars_of a k = vars (objs (network (sim a)) k)"

definition skeleton :: "aro \<Rightarrow> aro" where
  "skeleton a =
     a\<lparr>sim := (sim a)\<lparr>var_value := None,
          network := (network (sim a))
            \<lparr>objs := \<lambda>k. (objs (network (sim a)) k)
                \<lparr>vars := \<lparr>index = index (vars (objs (network (sim a)) k)), cols = []\<rparr>\<rparr>\<rparr>\<rparr>\<rparr>"

definition value_frame :: "real list \<Rightarrow> string \<Rightarrow> aro \<Rightarrow> py_error + frame" where
  "value_frame x nm a =
     bindE (get_x_idx (var_names (sim a)) nm) (\<lambda>(xmin_idx, xmax_idx).
     bindE (np_slice x xmin_idx xmax_idx) (\<lambda>vals.
     bindE (network_getitem (network (sim a)) nm) (\<lambda>el.
       col_assign (vars el) ''value'' vals)))"

text \<open>
  What \<open>solve\<close> needs of the solved model and of the tables for the extraction to raise
  nothing: the decision rule has one constant and one row of coefficients for every
  position of \<open>x\<close>; the table of every element of the decision table has one row for
  every position of the element's block; every tank has the column \<open>demand\<close> and draws
  its flows from elements of the decision table, those with discrete states having
  the column \<open>flow\<close>. \<open>populated x a\<close> is what the extraction leaves: \<open>x\<close> in the column
  \<open>value\<close> of \<open>sim.vars\<close>, and in the column \<open>value\<close> of every element of the decision
  table the entries of \<open>x\<close> at the element's block.
\<close>

definition has_col :: "aro \<Rightarrow> string \<Rightarrow> string \<Rightarrow> bool" where
  "has_col a k c = (c \<in> set (map fst (cols (vars_of a k))))"

definition comb_refs :: "element \<Rightarrow> string list" where
  "comb_refs t = pumps_inflows t @ cv_inflows t @ pumps_outflows t @ cv_outflows t"

definition results_ready :: "aro \<Rightarrow> solution \<Rightarrow> bool" where
  "results_ready a sol =
     (length (x_const sol) = x_size a \<and> length (x_coef sol) = x_size a
      \<and> list_all (\<lambda>nm. length (index (vars_of a nm))
                          = state_count (objs (network (sim a)) nm) * num_steps (sim a))
          (var_names (sim a))
      \<and> list_all (\<lambda>t. has_col a t ''demand''
              \<and> list_all (\<lambda>r. r \<in> set (var_names (sim a)))
                   (flow_refs (objs (network (sim a)) t))
              \<and> list_all (\<lambda>r. has_col a r ''flow'') (comb_refs (objs (network (sim a)) t)))
          (tanks (network (sim a))))"

definition populated :: "real list \<Rightarrow> aro \<Rightarrow> bool" where
  "populated x a =
     (var_value (sim a) = Some x
      \<and> list_all (\<lambda>nm. col_get (vars_of a nm) ''value'' = Inr (take_x x (block a nm)))
          (var_names (sim a)))"

section \<open>A small network\<close>

text \<open>
  One pump station with two states, one variable-speed pump and one tank, over two
  time steps: the concrete input of the closed theorems below.
\<close>

definition ex_ps1 :: element where
  "ex_ps1 = \<lparr>name = ''ps1'', combs = Some [''c1'', ''c2''],
     vars = \<lparr>index = [0, 0, 1, 1], cols = [(''flow'', [100, 180, 100, 180])]\<rparr>,
     min_flow = 0, max_flow = 0, init_flow = None,
     initial_vol = 0, min_vol = [], max_vol = 0, final_vol = 0,
     inflows = [], pumps_inflows = [], cv_inflows = [], vsp_inflows = [], v_inflows = [],
     pumps_outflows = [], cv_outflows = [], vsp_outflows = [], v_outflows = []\<rparr>"

definition ex_vsp1 :: element where
  "ex_vsp1 = \<lparr>name = ''vsp1'', combs = None,
     vars = \<lparr>index = [0, 1], cols = [(''flow'', [1, 1])]\<rparr>,
     min_flow = 0, max_flow = 50, init_flow = Some 10,
     initial_vol = 0, min_vol = [], max_vol = 0, final_vol = 0,
     inflows = [], pumps_inflows = [], cv_inflows = [], vsp_inflows = [], v_inflows = [],
     pumps_outflows = [], cv_outflows = [], vsp_outflows = [], v_outflows = []\<rparr>"

definition ex_t1 :: element where
  "ex_t1 = \<lparr>name = ''t1'', combs = None,
     vars = \<lparr>index = [0, 1], cols = [(''demand'', [30, 40])]\<rparr>,
     min_flow = 0, max_flow = 0, init_flow = None,
     initial_vol = 10, min_vol = [5, 7], max_vol = 20, final_vol = 12,
     inflows = [''ps1''], pumps_inflows = [''ps1''], cv_inflows = [], vsp_inflows = [], v_inflows = [],
     pumps_outflows = [], cv_outflows = [], vsp_outflows = [''vsp1''], v_outflows = []\<rparr>"

definition ex_objs :: "string \<Rightarrow> element" where
  "ex_objs k = (if k = ''ps1'' then ex_ps1 else if k = ''vsp1'' then ex_vsp1 else ex_t1)"

definition ex_net :: network where
  "ex_net = \<lparr>objs = ex_objs, pump_stations = [''ps1''], vsp = [''vsp1''], wells = [],
     control_valves = [], valves = [], tanks = [''t1''], comb_elements = [''ps1''],
     flow_elements = [''ps1'', ''vsp1''], cost_elements = [''ps1'', ''vsp1'']\<rparr>"

definition ex_sim :: sim where
  "ex_sim = \<lparr>network = ex_net,
     var_names = [''ps1'', ''ps1'', ''ps1'', ''ps1'', ''vsp1'', ''vsp1''],
     var_value = None, num_steps = 2, time_range = [0, 1]\<rparr>"

definition ex_aro :: aro where
  "ex_aro = \<lparr>sim = ex_sim, robustness = 1, lou = 1 / 2, uset_type = NormInf,
     udata_demand = Some \<lparr>u_elements = [''t1''], delta = None\<rparr>,
     x_size = 6, z_shape = (2, 1),
     x_depend = {(2, (0, 0)), (3, (0, 0)), (5, (0, 0))}\<rparr>"

definition ex_change :: change_row where
  "ex_change = \<lparr>cr_start = 0, cr_end = 5, cr_vsp = ''vsp1''\<rparr>"

definition ex_volume :: volume_row where
  "ex_volume = \<lparr>vr_start = 0, vr_end = 5, vr_vsp = ''vsp1'', vr_vol = 30, vr_type = ''le''\<rparr>"

definition ex_aro_delta :: aro where
  "ex_aro_delta = ex_aro\<lparr>udata_demand := Some \<lparr>u_elements = [''t1''], delta = Some [[1, 0], [0, 1]]\<rparr>\<rparr>"

text \<open>
  A solved decision rule for the small network: \<open>ps1\<close> runs its first state at step 0
  and its second at step 1, and the flow of \<open>vsp1\<close> at step 1 follows the first entry
  of \<open>z\<close>.
\<close>

definition ex_sol :: solution where
  "ex_sol = \<lparr>sol_status = 2, sol_obj = 1234,
     x_const = [1, 0, 0, 1, 20, 25],
     x_coef = [[0, 0], [0, 0], [0, 0], [0, 0], [0, 0], [4, 0]]\<rparr>"


section \<open>Theorems\<close>

subsection \<open>Robust constraints\<close>

lemma robust_adapted: "x_depend a \<noteq> {} \<Longrightarrow> robust a rand l r h = Inr (forall_constr a l r h)"
  by (simp add: robust_def)

lemma robust_rand: "robust a True l r h = Inr (forall_constr a l r h)"
  by (simp add: robust_def)

lemma robust_plain: "x_depend a = {} \<Longrightarrow> robust a False l r h = Inl AttributeError"
  by (simp add: robust_def)

lemma ldr_readyD:
  assumes "ldr_ready a"
  shows "x_depend a \<noteq> {}" and "adapt_ldr a {} = Inr (x_depend a)"
  using assms by (simp_all add: ldr_ready_def)

subsection \<open>The decision index\<close>

lemma name_rows_empty: "nm \<notin> set names \<Longrightarrow> name_rows names nm = []"
  by (auto simp: name_rows_def filter_empty_conv)

text \<open>
  C1, as the code has it: for an element name that does not occur in the decision-variable
  table, \<open>get_x_idx\<close> raises nothing; it returns the pair \<open>(nan, nan)\<close>, which is not a
  range of positions. The failure appears when a caller uses the pair as the bounds of
  a slice of \<open>x\<close>, which raises \<open>TypeError\<close>: so do the loop bodies of
  \<open>range_constraints\<close> for an element that is not in the table.
\<close>

theorem get_x_idx_unknown_returns_nan:
  assumes "nm \<notin> set (var_names (sim a))"
  shows "get_x_idx (var_names (sim a)) nm = Inr (NaN, NaN)
    \<and> bindE (get_x_idx (var_names (sim a)) nm) (\<lambda>(lo, hi). x_slice n lo hi) = Inl TypeError
    \<and> range_unit a nm cs = Inl TypeError \<and> range_vsp a nm cs = Inl TypeError"
  using assms
  by (simp add: get_x_idx_def name_rows_empty range_unit_def range_vsp_def bindE_def Let_def)

theorem get_x_idx_unknown_returns_nan_witness:
  "''well9'' \<notin> set (var_names (sim ex_aro))
   \<and> get_x_idx (var_names (sim ex_aro)) ''well9'' = Inr (NaN, NaN)
   \<and> bindE (get_x_idx (var_names (sim ex_aro)) ''well9'') (\<lambda>(lo, hi). x_slice 6 lo hi)
       = Inl TypeError
   \<and> range_unit ex_aro ''well9'' [] = Inl TypeError
   \<and> range_vsp ex_aro ''well9'' [] = Inl TypeError"
proof -
  have h: "''well9'' \<notin> set (var_names (sim ex_aro))"
    by (simp add: ex_aro_def ex_sim_def)
  from get_x_idx_unknown_returns_nan[OF h, of 6 "[]"] show ?thesis
    using h by (simp add: bindE_def)
qed

text \<open>
  The claim C1 as the specification states it (an unknown name fails with a
  \<open>LookupError\<close>) does not hold of the code: there is a table and a name not in it for
  which no \<open>LookupError\<close> is raised.
\<close>

theorem get_x_idx_unknown_no_LookupError:
  "''well9'' \<notin> set [''ps1'', ''ps1'', ''vsp1'']
   \<and> \<not> raises_LookupError (get_x_idx [''ps1'', ''ps1'', ''vsp1''] ''well9'')"
  by (simp add: get_x_idx_def raises_LookupError_def name_rows_def)

subsection \<open>The adaptive decision rule\<close>

lemma set_unique: "set (unique xs) = set xs"
  by (induction xs rule: unique.induct) auto

lemma fold_min_upt: "fold min [Suc b..<b + m] b = b"
proof -
  have "fold min [Suc b..<b + m] b = Min (set (b # [Suc b..<b + m]))"
    by (simp only: Min.set_eq_fold)
  also have "\<dots> = b"
    by (rule Min_eqI) auto
  finally show ?thesis .
qed

lemma fold_max_upt: "0 < m \<Longrightarrow> fold max [Suc b..<b + m] b = b + m - 1"
proof -
  assume m: "0 < m"
  have "fold max [Suc b..<b + m] b = Max (set (b # [Suc b..<b + m]))"
    by (simp only: Max.set_eq_fold)
  also have "\<dots> = b + m - 1"
    using m by (intro Max_eqI) auto
  finally show ?thesis .
qed

lemma get_x_idx_block:
  assumes "name_rows names nm = [b..<b + m]" and "0 < m"
  shows "get_x_idx names nm = Inr (Num (int b), Num (int (b + m)))"
proof -
  have "[b..<b + m] = b # [Suc b..<b + m]"
    using assms(2) by (simp add: upt_conv_Cons)
  then show ?thesis
    using assms by (simp add: get_x_idx_def fold_min_upt fold_max_upt)
qed

lemma name_rows_set: "set (name_rows names nm) = {i. i < length names \<and> names ! i = nm}"
  by (auto simp: name_rows_def)



lemma distinct_unique: "distinct (unique xs)"
  by (induction xs rule: unique.induct) (auto simp: set_unique)

lemma layout_okD:
  assumes "layout_ok a" and "nm \<in> set (var_names (sim a))"
  shows "nm \<in> set (network_keys (network (sim a)))"
    and "name_rows (var_names (sim a)) nm =
            [block_of (var_names (sim a)) nm..<
              block_of (var_names (sim a)) nm
                + state_count (objs (network (sim a)) nm) * num_steps (sim a)]"
    and "x_size a = length (var_names (sim a))"
  using assms by (auto simp: layout_ok_def list_all_iff set_unique)

lemma layout_block_pos:
  assumes "layout_ok a" and "nm \<in> set (var_names (sim a))"
  shows "0 < state_count (objs (network (sim a)) nm) * num_steps (sim a)"
    and "block_of (var_names (sim a)) nm
           + state_count (objs (network (sim a)) nm) * num_steps (sim a) \<le> x_size a"
proof -
  let ?b = "block_of (var_names (sim a)) nm"
  let ?m = "state_count (objs (network (sim a)) nm) * num_steps (sim a)"
  have rows: "name_rows (var_names (sim a)) nm = [?b..<?b + ?m]"
    by (rule layout_okD(2)[OF assms])
  obtain i where i: "i < length (var_names (sim a))" "var_names (sim a) ! i = nm"
    using assms(2) by (auto simp: in_set_conv_nth)
  then have "i \<in> set (name_rows (var_names (sim a)) nm)"
    by (simp add: name_rows_set)
  with rows have "i \<in> {?b..<?b + ?m}" by simp
  then have "?b \<le> i \<and> i < ?b + ?m" by (simp only: atLeastLessThan_iff)
  then show pos: "0 < ?m" by linarith
  have "?b \<le> ?b + ?m - 1 \<and> ?b + ?m - 1 < ?b + ?m" using pos by linarith
  then have "?b + ?m - 1 \<in> set [?b..<?b + ?m]" by (simp only: set_upt atLeastLessThan_iff)
  with rows have "?b + ?m - 1 \<in> set (name_rows (var_names (sim a)) nm)" by simp
  then have "?b + ?m - 1 < length (var_names (sim a))" by (simp add: name_rows_set)
  with pos show "?b + ?m \<le> x_size a"
    using layout_okD(3)[OF assms] by linarith
qed










lemma ex_layout_ok: "layout_ok ex_aro"
  by code_simp



subsection \<open>Operating ranges\<close>


lemma layout_slice:
  assumes "layout_ok a" and "nm \<in> set (var_names (sim a))"
  shows "get_x_idx (var_names (sim a)) nm
           = Inr (Num (int (block_of (var_names (sim a)) nm)),
                  Num (int (block_of (var_names (sim a)) nm
                     + state_count (objs (network (sim a)) nm) * num_steps (sim a))))"
    and "x_slice (x_size a) (Num (int (block_of (var_names (sim a)) nm)))
           (Num (int (block_of (var_names (sim a)) nm
                     + state_count (objs (network (sim a)) nm) * num_steps (sim a))))
           = Inr (block a nm)"
    and "x_item (x_size a) (Num (int (block_of (var_names (sim a)) nm)))
           = Inr [block_of (var_names (sim a)) nm]"
proof -
  let ?b = "block_of (var_names (sim a)) nm"
  let ?m = "state_count (objs (network (sim a)) nm) * num_steps (sim a)"
  show "get_x_idx (var_names (sim a)) nm = Inr (Num (int ?b), Num (int (?b + ?m)))"
    by (rule get_x_idx_block[OF layout_okD(2)[OF assms] layout_block_pos(1)[OF assms]])
  have le: "?b + ?m \<le> x_size a" by (rule layout_block_pos(2)[OF assms])
  then have "min (?b + ?m) (x_size a) = ?b + ?m" by simp
  then show "x_slice (x_size a) (Num (int ?b)) (Num (int (?b + ?m))) = Inr (block a nm)"
    by (simp add: block_def del: of_nat_add of_nat_mult)
  have "?b < x_size a" using le layout_block_pos(1)[OF assms] by linarith
  then show "x_item (x_size a) (Num (int ?b)) = Inr [?b]" by simp
qed



text \<open>
  Before any adaptation the first comparison is a plain constraint: the loop body
  raises \<open>AttributeError\<close>.
\<close>

lemma range_unit_unadapted:
  assumes "layout_ok a" and "x_depend a = {}" and "nm \<in> set (var_names (sim a))"
  shows "range_unit a nm cs = Inl AttributeError"
  by (simp add: range_unit_def bindE_def layout_slice[OF assms(1,3)] robust_plain[OF assms(2)]
      del: of_nat_add of_nat_mult x_slice.simps x_item.simps)






subsection \<open>Exclusivity of the discrete states\<close>

lemma mat_set_shape:
  "length (mat_set m p v) = length m"
  "i < length m \<Longrightarrow> length (mat_set m p v ! i) = length (m ! i)"
  by (cases "fst p = i"; simp add: mat_set_def)+

lemma mat_set_nth:
  assumes "i < length m" and "j < length (m ! i)"
  shows "mat_set m p v ! i ! j = (if p = (i, j) then v else m ! i ! j)"
proof (cases "fst p = i")
  case True
  with assms show ?thesis
    by (cases p; cases "snd p = j") (simp_all add: mat_set_def)
next
  case False
  with assms show ?thesis by (cases p) (simp add: mat_set_def)
qed

lemma fancy_assign_snoc: "fancy_assign m (ps @ [p]) v = mat_set (fancy_assign m ps v) p v"
  by (simp add: fancy_assign_def)

lemma fancy_assign_shape:
  "length (fancy_assign m ps v) = length m
   \<and> (\<forall>i<length m. length (fancy_assign m ps v ! i) = length (m ! i))"
proof (induction ps rule: rev_induct)
  case Nil
  show ?case by (simp add: fancy_assign_def)
next
  case (snoc p ps)
  then show ?case by (simp add: fancy_assign_snoc mat_set_shape)
qed

lemma fancy_assign_nth:
  assumes "i < length m" and "j < length (m ! i)"
  shows "fancy_assign m ps v ! i ! j = (if (i, j) \<in> set ps then v else m ! i ! j)"
proof (induction ps rule: rev_induct)
  case Nil
  show ?case by (simp add: fancy_assign_def)
next
  case (snoc p ps)
  have "i < length (fancy_assign m ps v)" "j < length (fancy_assign m ps v ! i)"
    using assms fancy_assign_shape[of m ps v] by simp_all
  then have "mat_set (fancy_assign m ps v) p v ! i ! j
      = (if p = (i, j) then v else fancy_assign m ps v ! i ! j)"
    by (rule mat_set_nth)
  with snoc show ?case by (auto simp: fancy_assign_snoc)
qed

lemma zeros_shape:
  "length (zeros r c) = r" "i < r \<Longrightarrow> length (zeros r c ! i) = c"
  "i < r \<Longrightarrow> j < c \<Longrightarrow> zeros r c ! i ! j = 0"
  by (simp_all add: zeros_def)
















subsection \<open>Scheduling windows\<close>

lemma np_eye_shape:
  "length (np_eye T) = T" "i < T \<Longrightarrow> length (np_eye T ! i) = T"
  "i < T \<Longrightarrow> j < T \<Longrightarrow> np_eye T ! i ! j = (if i = j then 1 else 0)"
  by (simp_all add: np_eye_def)

lemma subdiag_pairs:
  "(i, j) \<in> set (zip [Suc 0..<T] [0..<T - Suc 0]) \<longleftrightarrow> i = Suc j \<and> i < T"
proof
  assume "(i, j) \<in> set (zip [Suc 0..<T] [0..<T - Suc 0])"
  then obtain k where "k < T - Suc 0" "i = [Suc 0..<T] ! k" "j = [0..<T - Suc 0] ! k"
    by (auto simp: set_zip)
  then show "i = Suc j \<and> i < T" by simp
next
  assume h: "i = Suc j \<and> i < T"
  then have "j < T - Suc 0" by linarith
  with h have "j < T - Suc 0" "[Suc 0..<T] ! j = i" "[0..<T - Suc 0] ! j = j" by simp_all
  then show "(i, j) \<in> set (zip [Suc 0..<T] [0..<T - Suc 0])"
    unfolding set_zip by (intro CollectI exI[of _ j]) simp
qed

lemma diff_matrix_ok:
  assumes "0 < T"
  shows "\<exists>m. diff_matrix T = Inr m \<and> length m = T
    \<and> (\<forall>i<T. length (m ! i) = T
          \<and> (\<forall>j<T. m ! i ! j = (if i = j \<and> i \<noteq> 0 then 1 else if i = Suc j then - 1 else 0)))"
proof -
  let ?m1 = "fancy_assign (np_eye T) (zip [Suc 0..<T] [0..<T - Suc 0]) (- 1)"
  have sh: "length ?m1 = T" "\<forall>i<T. length (?m1 ! i) = T"
    using fancy_assign_shape[of "np_eye T" "zip [Suc 0..<T] [0..<T - Suc 0]" "- 1"]
    by (simp_all add: np_eye_shape)
  have e1: "?m1 ! i ! j = (if i = Suc j then - 1 else if i = j then 1 else 0)"
    if "i < T" "j < T" for i j
  proof -
    have "?m1 ! i ! j
        = (if (i, j) \<in> set (zip [Suc 0..<T] [0..<T - Suc 0]) then - 1 else np_eye T ! i ! j)"
      by (rule fancy_assign_nth) (simp_all add: np_eye_shape that)
    then show ?thesis using that by (simp add: subdiag_pairs np_eye_shape)
  qed
  have run: "diff_matrix T = Inr (mat_set ?m1 (0, 0) 0)"
    using assms by (simp add: diff_matrix_def)
  have "length (mat_set ?m1 (0, 0) 0) = T" by (simp add: mat_set_shape sh)
  moreover have "length (mat_set ?m1 (0, 0) 0 ! i) = T" if "i < T" for i
    using that sh by (simp add: mat_set_shape)
  moreover have "mat_set ?m1 (0, 0) 0 ! i ! j
      = (if i = j \<and> i \<noteq> 0 then 1 else if i = Suc j then - 1 else 0)"
    if "i < T" "j < T" for i j
  proof -
    have "mat_set ?m1 (0, 0) 0 ! i ! j = (if (0, 0) = (i, j) then 0 else ?m1 ! i ! j)"
      by (rule mat_set_nth) (use that sh in simp_all)
    then show ?thesis using e1[OF that] by auto
  qed
  ultimately show ?thesis using run by simp
qed

lemma map_of_assoc_set: "map_of (assoc_set k v ps) = (map_of ps)(k \<mapsto> v)"
  by (induction ps) (auto simp: fun_eq_iff)

lemma aux_column:
  assumes "length msk = length (index f)"
  shows "col_get (loc_set (aux_zero f) msk ''aux'' 1) ''aux''
           = Inr (map (\<lambda>m. if m then 1 else 0) msk)"
proof -
  have "map2 (\<lambda>m u. if m then 1 else u) msk (replicate (length (index f)) (0::real))
      = map (\<lambda>m. if m then 1 else 0) msk"
    using assms by (intro nth_equalityI) simp_all
  then show ?thesis
    by (simp add: loc_set_def aux_zero_def col_set_def col_get_def map_of_assoc_set)
qed

lemma row_scale_change:
  assumes "length m = T" and "length labels = T"
    and "\<forall>i<T. length (m ! i) = T
          \<and> (\<forall>j<T. m ! i ! j = (if i = j \<and> i \<noteq> 0 then 1 else if i = Suc j then - 1 else 0))"
  shows "row_scale m (map (\<lambda>t. if in_window row t then 1 else 0) labels)
           = Inr (change_matrix row labels T)"
proof -
  let ?u = "map (\<lambda>t. if in_window row t then 1 else (0::real)) labels"
  have "map2 (\<lambda>r s. map (\<lambda>v. v * s) r) m ?u = change_matrix row labels T"
  proof (rule nth_equalityI)
    show "length (map2 (\<lambda>r s. map (\<lambda>v. v * s) r) m ?u) = length (change_matrix row labels T)"
      using assms by (simp add: change_matrix_def)
  next
    fix i assume "i < length (map2 (\<lambda>r s. map (\<lambda>v. v * s) r) m ?u)"
    then have i: "i < T" using assms by simp
    have "map (\<lambda>v. v * ?u ! i) (m ! i) = map (\<lambda>j. change_entry row labels i j) [0..<T]"
      using assms i by (intro nth_equalityI) (simp_all add: change_entry_def)
    then show "map2 (\<lambda>r s. map (\<lambda>v. v * s) r) m ?u ! i = change_matrix row labels T ! i"
      using assms i by (simp add: change_matrix_def)
  qed
  then show ?thesis using assms by (simp add: row_scale_def)
qed


lemma change_matrix_ncols: "0 < T \<Longrightarrow> ncols (change_matrix row labels T) = T"
  by (simp add: change_matrix_def ncols_def upt_conv_Cons)




lemma vsp_changes_row_unadapted:
  assumes "layout_ok a" and "cr_vsp row \<in> set (var_names (sim a))"
    and "combs (objs (network (sim a)) (cr_vsp row)) = None"
    and "length (index (vars (objs (network (sim a)) (cr_vsp row)))) = num_steps (sim a)"
    and "x_depend a = {}"
  shows "vsp_changes_row row (cs, a) = Inl AttributeError"
proof -
  let ?nm = "cr_vsp row"
  let ?T = "num_steps (sim a)"
  let ?f = "vars (objs (network (sim a)) ?nm)"
  let ?msk = "map (\<lambda>t. cr_start row < t \<and> t < cr_end row) (index ?f)"
  have c1: "state_count (objs (network (sim a)) ?nm) = 1"
    using assms(3) by (simp add: state_count_def)
  have T: "0 < ?T" using layout_block_pos(1)[OF assms(1,2)] c1 by simp
  obtain m where m: "diff_matrix ?T = Inr m" "length m = ?T"
    "\<forall>i<?T. length (m ! i) = ?T
        \<and> (\<forall>j<?T. m ! i ! j = (if i = j \<and> i \<noteq> 0 then 1 else if i = Suc j then - 1 else 0))"
    using diff_matrix_ok[OF T] by blast
  have idx0: "index (aux_zero ?f) = index ?f" by (simp add: aux_zero_def col_set_def)
  have aux: "col_get (loc_set (aux_zero ?f) ?msk ''aux'' 1) ''aux''
      = Inr (map (\<lambda>t. if in_window row t then 1 else 0) (index ?f))"
    using aux_column[of ?msk ?f] by (simp add: in_window_def comp_def)
  have sc: "row_scale m (map (\<lambda>t. if in_window row t then 1 else 0) (index ?f))
      = Inr (change_matrix row (index ?f) ?T)"
    by (rule row_scale_change[OF m(2) assms(4) m(3)])
  have len: "length (block a ?nm) = ?T" by (simp add: block_def c1)
  show ?thesis
    by (simp add: vsp_changes_row_def Let_def bindE_def named_element_def assms(2)
        layout_slice[OF assms(1,2)] idx0 m(1) aux sc change_matrix_ncols[OF T] len
        robust_plain[OF assms(5)]
        del: of_nat_add of_nat_mult x_slice.simps)
qed


lemma drop_aux_restores:
  assumes "''aux'' \<notin> fst ` set (cols f)"
  shows "col_drop (loc_set (aux_zero f) msk ''aux'' 1) ''aux'' = Inr f"
proof -
  have a: "filter (\<lambda>p. fst p \<noteq> k) (assoc_set k v ps) = ps" if "k \<notin> fst ` set ps"
    for k :: string and v :: "real list" and ps
    using that by (induction ps) auto
  have b: "assoc_set k v (assoc_set k w ps) = assoc_set k v ps"
    for k :: string and v w :: "real list" and ps
    by (induction ps) auto
  have c: "k \<in> fst ` set (assoc_set k v ps)" for k :: string and v :: "real list" and ps
    by (induction ps) auto
  show ?thesis
    using assms
    by (simp add: col_drop_def loc_set_def aux_zero_def col_set_def map_of_assoc_set a b c)
qed

lemma set_vars_same: "set_vars a k (vars (objs (network (sim a)) k)) = a"
  by (simp add: set_vars_def)

lemma vsp_volume_row_restores:
  assumes "vsp_volume_row row (cs, a) = Inr (cs', a')"
    and "''aux'' \<notin> fst ` set (cols (vars (objs (network (sim a)) (vr_vsp row))))"
  shows "a' = a"
  using assms
  by (auto simp: vsp_volume_row_def Let_def bindE_def named_element_def drop_aux_restores
      set_vars_same robust_def split: sum.splits if_splits prod.splits)

text \<open>
  C8 fails on the no-change builder: after \<open>vsp_changes\<close> has processed one record for
  the variable-speed pump of the small network, the pump's table has the column \<open>aux\<close>
  it did not have before, while \<open>vsp_volume\<close> on a record for the same pump leaves the
  table as it was.
\<close>

theorem vsp_changes_keeps_aux:
  "cols (vars (objs (network (sim ex_aro)) ''vsp1'')) = [(''flow'', [1, 1])]
   \<and> (case vsp_changes ex_aro [ex_change] of
         Inl e \<Rightarrow> False
       | Inr (cs, a') \<Rightarrow>
           cols (vars (objs (network (sim a')) ''vsp1'')) = [(''flow'', [1, 1]), (''aux'', [0, 1])])
   \<and> (case vsp_volume ex_aro [ex_volume] of
         Inl e \<Rightarrow> False
       | Inr (cs, a') \<Rightarrow>
           cols (vars (objs (network (sim a')) ''vsp1'')) = [(''flow'', [1, 1])])"
  by code_simp

subsection \<open>Mass balance\<close>

lemma cumsum_from_length: "length (cumsum_from acc vs) = length vs"
  by (induction vs arbitrary: acc) simp_all

lemma cumsum_from_nth:
  "i < length vs \<Longrightarrow> cumsum_from acc vs ! i = acc + sum_list (take (Suc i) vs)"
proof (induction vs arbitrary: acc i)
  case Nil
  then show ?case by simp
next
  case (Cons v vs)
  then show ?case by (cases i) (simp_all add: add.assoc)
qed

lemma cumsum_length: "length (cumsum vs) = length vs"
  by (simp add: cumsum_def cumsum_from_length)

lemma cumsum_nth: "i < length vs \<Longrightarrow> cumsum vs ! i = sum_list (take (Suc i) vs)"
  by (simp add: cumsum_def cumsum_from_nth)

lemma vec_assign_exact:
  assumes "hi \<le> length arr" and "length v = hi - lo"
  shows "vec_assign arr lo hi v
     = Inr (map (\<lambda>i. if lo \<le> i \<and> i < hi then v ! (i - lo) else arr ! i) [0..<length arr])"
  using assms by (simp add: vec_assign_def min_absorb1)

lemma mat_assign_exact:
  assumes "r1 \<le> length m" and "length mat = r1 - r0" and "c1 \<le> n" and "ncols mat = c1 - c0"
  shows "mat_assign n m r0 r1 (Num (int c0)) (Num (int c1)) mat
     = Inr (map (\<lambda>i. map (\<lambda>j.
              if r0 \<le> i \<and> i < r1 \<and> c0 \<le> j \<and> j < c1 then mat ! (i - r0) ! (j - c0)
              else m ! i ! j) [0..<n]) [0..<length m])"
  using assms by (simp add: min_absorb1 Let_def)

lemma cum_rows_alt: "cum_rows T c = concat (map (\<lambda>t. replicate (c * (t + 1)) t) [0..<T])"
proof -
  have "[1..<T + 1] = map Suc [0..<T]" by (simp add: map_Suc_upt)
  then show ?thesis by (simp add: cum_rows_def comp_def)
qed

lemma zip_concat_map:
  assumes "\<And>x. x \<in> set xs \<Longrightarrow> length (f x) = length (g x)"
  shows "zip (concat (map f xs)) (concat (map g xs)) = concat (map (\<lambda>x. zip (f x) (g x)) xs)"
  using assms by (induction xs) simp_all

lemma cum_pairs:
  "(t, j) \<in> set (zip (cum_rows T c) (cum_cols T c)) \<longleftrightarrow> t < T \<and> j < c * (t + 1)"
proof -
  have "zip (cum_rows T c) (cum_cols T c)
      = concat (map (\<lambda>t. zip (replicate (c * (t + 1)) t) [0..<c * (t + 1)]) [0..<T])"
    unfolding cum_rows_alt cum_cols_def by (rule zip_concat_map) simp
  moreover have "(t, j) \<in> set (zip (replicate m s) [0..<m]) \<longleftrightarrow> t = s \<and> j < m" for m s
  proof
    assume "(t, j) \<in> set (zip (replicate m s) [0..<m])"
    then show "t = s \<and> j < m" by (auto simp: set_zip)
  next
    assume "t = s \<and> j < m"
    then have "j < m \<and> replicate m s ! j = t \<and> [0..<m] ! j = j" by simp
    then show "(t, j) \<in> set (zip (replicate m s) [0..<m])"
      unfolding set_zip by (intro CollectI exI[of _ j]) simp
  qed
  ultimately show ?thesis by auto
qed

lemma tril_pairs: "(t, j) \<in> set (tril_indices T) \<longleftrightarrow> t < T \<and> j < t + 1"
proof -
  have eq: "set (tril_indices T) = (\<Union>i\<in>{0..<T}. (\<lambda>k. (i, k)) ` {0..<i + 1})"
    by (simp add: tril_indices_def del: upt_Suc)
  show ?thesis
  proof
    assume "(t, j) \<in> set (tril_indices T)"
    then obtain i where "i \<in> {0..<T}" "(t, j) \<in> (\<lambda>k. (i, k)) ` {0..<i + 1}"
      unfolding eq by blast
    then show "t < T \<and> j < t + 1" by auto
  next
    assume h: "t < T \<and> j < t + 1"
    then have "t \<in> {0..<T}" by simp
    moreover have "(t, j) \<in> (\<lambda>k. (t, k)) ` {0..<t + 1}"
      using h by (intro image_eqI[of _ _ j]) simp_all
    ultimately show "(t, j) \<in> set (tril_indices T)"
      unfolding eq by (rule UN_I)
  qed
qed

lemma ncols_rect: "0 < length m \<Longrightarrow> \<forall>i<length m. length (m ! i) = c \<Longrightarrow> ncols m = c"
  by (cases m) (auto simp: ncols_def)

lemma cumulative_not_comb_entries:
  shows "length (cumulative_not_comb_matrix a io) = num_steps (sim a)"
    and "t < num_steps (sim a) \<Longrightarrow> length (cumulative_not_comb_matrix a io ! t) = num_steps (sim a)"
    and "t < num_steps (sim a) \<Longrightarrow> j < num_steps (sim a) \<Longrightarrow>
           cumulative_not_comb_matrix a io ! t ! j = (if j < t + 1 then flow_direction io else 0)"
proof -
  let ?T = "num_steps (sim a)"
  have sh: "length (fancy_assign (zeros ?T ?T) (tril_indices ?T) (flow_direction io)) = ?T"
    "\<forall>i<?T. length (fancy_assign (zeros ?T ?T) (tril_indices ?T) (flow_direction io) ! i) = ?T"
    using fancy_assign_shape[of "zeros ?T ?T" "tril_indices ?T" "flow_direction io"]
    by (simp_all add: zeros_shape)
  show "length (cumulative_not_comb_matrix a io) = ?T"
    by (simp add: cumulative_not_comb_matrix_def sh)
  show "length (cumulative_not_comb_matrix a io ! t) = ?T" if "t < ?T"
    using that sh by (simp add: cumulative_not_comb_matrix_def)
  show "cumulative_not_comb_matrix a io ! t ! j = (if j < t + 1 then flow_direction io else 0)"
    if "t < ?T" "j < ?T"
  proof -
    have "cumulative_not_comb_matrix a io ! t ! j
        = (if (t, j) \<in> set (tril_indices ?T) then flow_direction io else zeros ?T ?T ! t ! j)"
      unfolding cumulative_not_comb_matrix_def
      by (rule fancy_assign_nth) (simp_all add: zeros_shape that)
    then show ?thesis using that by (simp add: tril_pairs zeros_shape)
  qed
qed

lemma cumulative_comb_entries:
  assumes "combs e = Some cmb" and "0 < num_steps (sim a)"
    and "map_of (cols (vars e)) ''flow'' = Some v"
    and "length v = num_steps (sim a) * length cmb"
  shows "\<exists>m. cumulative_comb_matrix a e io (Some ''flow'') = Inr m
    \<and> length m = num_steps (sim a)
    \<and> (\<forall>t<num_steps (sim a). length (m ! t) = num_steps (sim a) * length cmb
         \<and> (\<forall>j<num_steps (sim a) * length cmb.
               m ! t ! j = (if j < length cmb * (t + 1) then flow_direction io * v ! j else 0)))"
proof -
  let ?T = "num_steps (sim a)"
  let ?c = "length cmb"
  let ?m0 = "fancy_assign (zeros ?T (?T * ?c)) (zip (cum_rows ?T ?c) (cum_cols ?T ?c))
               (flow_direction io)"
  have sh: "length ?m0 = ?T" "\<forall>i<?T. length (?m0 ! i) = ?T * ?c"
    using fancy_assign_shape[of "zeros ?T (?T * ?c)" "zip (cum_rows ?T ?c) (cum_cols ?T ?c)"
        "flow_direction io"]
    by (simp_all add: zeros_shape)
  have e0: "?m0 ! t ! j = (if j < ?c * (t + 1) then flow_direction io else 0)"
    if "t < ?T" "j < ?T * ?c" for t j
  proof -
    have "?m0 ! t ! j = (if (t, j) \<in> set (zip (cum_rows ?T ?c) (cum_cols ?T ?c))
                         then flow_direction io else zeros ?T (?T * ?c) ! t ! j)"
      by (rule fancy_assign_nth) (simp_all add: zeros_shape that)
    then show ?thesis using that by (simp add: cum_pairs zeros_shape)
  qed
  have nc: "ncols ?m0 = ?T * ?c"
    by (rule ncols_rect) (use sh assms(2) in simp_all)
  have run: "cumulative_comb_matrix a e io (Some ''flow'') = Inr (map (\<lambda>row. map2 (*) row v) ?m0)"
    using assms
    by (simp add: cumulative_comb_matrix_def Let_def bindE_def col_get_def scale_cols_def nc)
  have "map (\<lambda>row. map2 (*) row v) ?m0 ! t ! j
      = (if j < ?c * (t + 1) then flow_direction io * v ! j else 0)"
    if "t < ?T" "j < ?T * ?c" for t j
    using that sh assms(4) e0[OF that] by simp
  moreover have "length (map (\<lambda>row. map2 (*) row v) ?m0 ! t) = ?T * ?c" if "t < ?T" for t
    using that sh assms(4) by simp
  ultimately show ?thesis using run sh(1) by simp
qed


lemma flows_okD:
  assumes "flows_ok a" and "nm \<in> set (var_names (sim a))"
  shows "nm \<in> set (flow_elements (network (sim a)))"
    and "combs (objs (network (sim a)) nm) = Some cmb \<Longrightarrow>
           \<exists>v. map_of (cols (vars (objs (network (sim a)) nm))) ''flow'' = Some v
              \<and> length v = num_steps (sim a) * length cmb"
proof -
  have h: "nm \<in> set (flow_elements (network (sim a))) \<and>
        (case combs (objs (network (sim a)) nm) of
           None \<Rightarrow> True
         | Some cmb \<Rightarrow>
             (case map_of (cols (vars (objs (network (sim a)) nm))) ''flow'' of
                None \<Rightarrow> False
              | Some v \<Rightarrow> length v = num_steps (sim a) * length cmb))"
    using assms by (simp add: flows_ok_def list_all_iff set_unique)
  then show "nm \<in> set (flow_elements (network (sim a)))" by simp
  assume "combs (objs (network (sim a)) nm) = Some cmb"
  with h show "\<exists>v. map_of (cols (vars (objs (network (sim a)) nm))) ''flow'' = Some v
              \<and> length v = num_steps (sim a) * length cmb"
    by (cases "map_of (cols (vars (objs (network (sim a)) nm))) ''flow''") simp_all
qed

lemma get_cumulative_entries:
  assumes "layout_ok a" and "flows_ok a" and "nm \<in> set (var_names (sim a))"
  shows "\<exists>mat. get_cumulative_flow_matrix a nm io = Inr mat
    \<and> length mat = num_steps (sim a)
    \<and> (\<forall>t<num_steps (sim a).
          length (mat ! t) = state_count (objs (network (sim a)) nm) * num_steps (sim a)
          \<and> (\<forall>j<state_count (objs (network (sim a)) nm) * num_steps (sim a).
                mat ! t ! j
                  = (if j < state_count (objs (network (sim a)) nm) * (t + 1)
                     then flow_direction io * flow_param (objs (network (sim a)) nm) j else 0)))"
proof -
  let ?e = "objs (network (sim a)) nm"
  let ?T = "num_steps (sim a)"
  have T: "0 < ?T" using layout_block_pos(1)[OF assms(1,3)] by simp
  have g: "dict_get (flow_elements (network (sim a))) (objs (network (sim a))) nm = Inr ?e"
    using flows_okD(1)[OF assms(2,3)] by (simp add: dict_get_def)
  show ?thesis
  proof (cases "combs ?e")
    case None
    then have "get_cumulative_flow_matrix a nm io = Inr (cumulative_not_comb_matrix a io)"
      by (simp add: get_cumulative_flow_matrix_def bindE_def g)
    moreover have "state_count ?e = 1" "\<And>j. flow_param ?e j = 1"
      using None by (simp_all add: state_count_def flow_param_def)
    ultimately show ?thesis
      by (simp add: cumulative_not_comb_entries)
  next
    case (Some cmb)
    then obtain v where v: "map_of (cols (vars ?e)) ''flow'' = Some v" "length v = ?T * length cmb"
      using flows_okD(2)[OF assms(2,3)] by blast
    obtain m where m: "cumulative_comb_matrix a ?e io (Some ''flow'') = Inr m" "length m = ?T"
      "\<forall>t<?T. length (m ! t) = ?T * length cmb
         \<and> (\<forall>j<?T * length cmb.
               m ! t ! j = (if j < length cmb * (t + 1) then flow_direction io * v ! j else 0))"
      using cumulative_comb_entries[OF Some T v] by blast
    have "get_cumulative_flow_matrix a nm io = Inr m"
      using Some m(1) by (simp add: get_cumulative_flow_matrix_def bindE_def g)
    moreover have "state_count ?e = length cmb" "\<And>j. flow_param ?e j = v ! j"
      using Some v by (simp_all add: state_count_def flow_param_def)
    ultimately show ?thesis
      using m(2,3) by (simp add: mult.commute)
  qed
qed

lemma layout_names_block:
  assumes "layout_ok a" and "nm \<in> set (var_names (sim a))" and "i < x_size a"
  shows "var_names (sim a) ! i = nm \<longleftrightarrow>
           block_of (var_names (sim a)) nm \<le> i
           \<and> i < block_of (var_names (sim a)) nm
                  + state_count (objs (network (sim a)) nm) * num_steps (sim a)"
proof -
  have "i \<in> set (name_rows (var_names (sim a)) nm) \<longleftrightarrow> var_names (sim a) ! i = nm"
    using assms(3) layout_okD(3)[OF assms(1,2)] by (simp add: name_rows_set)
  then show ?thesis
    by (simp add: layout_okD(2)[OF assms(1,2)])
qed

lemma mb_element_step:
  assumes "layout_ok a" and "flows_ok a" and "nm \<in> set (var_names (sim a))"
    and "length m = n" and "\<forall>r<n. length (m ! r) = x_size a"
    and "(k + 1) * num_steps (sim a) \<le> n"
  shows "\<exists>m'. mass_balance_element a tank k nm m = Inr m' \<and> length m' = n
    \<and> (\<forall>r<n. length (m' ! r) = x_size a)
    \<and> (\<forall>r<n. \<forall>i<x_size a.
          m' ! r ! i
            = (if var_names (sim a) ! i = nm \<and> k * num_steps (sim a) \<le> r
                  \<and> r < (k + 1) * num_steps (sim a) \<and> flow_sign tank nm \<noteq> 0
               then flow_coef a tank (r - k * num_steps (sim a)) i else m ! r ! i))"
proof -
  let ?e = "objs (network (sim a)) nm"
  let ?T = "num_steps (sim a)"
  let ?N = "x_size a"
  let ?b = "block_of (var_names (sim a)) nm"
  let ?c = "state_count ?e"
  have T: "0 < ?T" using layout_block_pos(1)[OF assms(1,3)] by simp
  have g: "dict_get (flow_elements (network (sim a))) (objs (network (sim a))) nm = Inr ?e"
    using flows_okD(1)[OF assms(2,3)] by (simp add: dict_get_def)
  have x: "get_x_idx (var_names (sim a)) nm = Inr (Num (int ?b), Num (int (?b + ?c * ?T)))"
    by (rule layout_slice(1)[OF assms(1,3)])
  have le: "?b + ?c * ?T \<le> ?N" by (rule layout_block_pos(2)[OF assms(1,3)])
  have step: "\<exists>m'. bindE (get_cumulative_flow_matrix a nm io) (\<lambda>mat.
              mat_assign ?N m (k * ?T) ((k + 1) * ?T) (Num (int ?b)) (Num (int (?b + ?c * ?T))) mat)
            = Inr m' \<and> length m' = n \<and> (\<forall>r<n. length (m' ! r) = ?N)
      \<and> (\<forall>r<n. \<forall>i<?N. m' ! r ! i
            = (if var_names (sim a) ! i = nm \<and> k * ?T \<le> r \<and> r < (k + 1) * ?T
               then (if i - ?b < ?c * (r - k * ?T + 1)
                     then flow_direction io * flow_param ?e (i - ?b) else 0)
               else m ! r ! i))" for io
  proof -
    obtain mat where mat: "get_cumulative_flow_matrix a nm io = Inr mat" "length mat = ?T"
      "\<forall>t<?T. length (mat ! t) = ?c * ?T
          \<and> (\<forall>j<?c * ?T. mat ! t ! j
                = (if j < ?c * (t + 1) then flow_direction io * flow_param ?e j else 0))"
      using get_cumulative_entries[OF assms(1,2,3)] by blast
    have nc: "ncols mat = ?b + ?c * ?T - ?b"
      using ncols_rect[of mat "?c * ?T"] mat(2,3) T by simp
    have lm: "length mat = (k + 1) * ?T - k * ?T" using mat(2) by simp
    let ?m' = "map (\<lambda>i. map (\<lambda>j.
              if k * ?T \<le> i \<and> i < (k + 1) * ?T \<and> ?b \<le> j \<and> j < ?b + ?c * ?T
              then mat ! (i - k * ?T) ! (j - ?b)
              else m ! i ! j) [0..<?N]) [0..<length m]"
    have run: "mat_assign ?N m (k * ?T) ((k + 1) * ?T) (Num (int ?b)) (Num (int (?b + ?c * ?T))) mat
        = Inr ?m'"
      by (rule mat_assign_exact) (use assms(4,6) le lm nc in simp_all)
    have nthm: "?m' ! r ! i
        = (if k * ?T \<le> r \<and> r < (k + 1) * ?T \<and> ?b \<le> i \<and> i < ?b + ?c * ?T
           then mat ! (r - k * ?T) ! (i - ?b) else m ! r ! i)" if "r < n" "i < ?N" for r i
      using that assms(4) by simp
    have ent: "?m' ! r ! i
        = (if var_names (sim a) ! i = nm \<and> k * ?T \<le> r \<and> r < (k + 1) * ?T
           then (if i - ?b < ?c * (r - k * ?T + 1)
                 then flow_direction io * flow_param ?e (i - ?b) else 0)
           else m ! r ! i)" if "r < n" "i < ?N" for r i
    proof (cases "var_names (sim a) ! i = nm \<and> k * ?T \<le> r \<and> r < (k + 1) * ?T")
      case True
      then have bl: "?b \<le> i" "i < ?b + ?c * ?T"
        using layout_names_block[OF assms(1,3) that(2)] by simp_all
      have "(k + 1) * ?T = k * ?T + ?T" by simp
      then have rt: "r - k * ?T < ?T" using True by linarith
      have pos: "k * ?T \<le> r \<and> r < (k + 1) * ?T \<and> ?b \<le> i \<and> i < ?b + ?c * ?T"
        using True bl by simp
      have "?m' ! r ! i = mat ! (r - k * ?T) ! (i - ?b)"
        by (simp only: nthm[OF that] if_P[OF pos])
      also have "\<dots> = (if i - ?b < ?c * (r - k * ?T + 1)
                 then flow_direction io * flow_param ?e (i - ?b) else 0)"
        using mat(3) rt bl by simp
      finally show ?thesis by (simp only: if_P[OF True])
    next
      case False
      then have neg: "\<not> (k * ?T \<le> r \<and> r < (k + 1) * ?T \<and> ?b \<le> i \<and> i < ?b + ?c * ?T)"
        using layout_names_block[OF assms(1,3) that(2)] by auto
      have "?m' ! r ! i = m ! r ! i"
        by (simp only: nthm[OF that] if_not_P[OF neg])
      then show ?thesis by (simp only: if_not_P[OF False])
    qed
    show ?thesis
      using run ent assms(4) by (simp add: bindE_def mat(1))
  qed
  have fc: "flow_coef a tank t i
      = (if i - ?b < ?c * (t + 1) then flow_sign tank nm * flow_param ?e (i - ?b) else 0)"
    if "var_names (sim a) ! i = nm" for t i
    using that by (simp add: flow_coef_def Let_def)
  consider (inflow) "nm \<in> set (inflows tank)"
    | (outflow) "nm \<notin> set (inflows tank)" "nm \<in> set (outflows tank)"
    | (neither) "nm \<notin> set (inflows tank)" "nm \<notin> set (outflows tank)"
    by blast
  then show ?thesis
  proof cases
    case inflow
    then have s: "flow_sign tank nm = 1" by (simp add: flow_sign_def)
    have "mass_balance_element a tank k nm m
        = bindE (get_cumulative_flow_matrix a nm In) (\<lambda>mat.
              mat_assign ?N m (k * ?T) ((k + 1) * ?T) (Num (int ?b)) (Num (int (?b + ?c * ?T))) mat)"
      using inflow by (simp add: mass_balance_element_def bindE_def g x del: of_nat_add of_nat_mult mat_assign.simps)
    with step[of In] show ?thesis
      by (auto simp: s fc)
  next
    case outflow
    then have s: "flow_sign tank nm = - 1" by (simp add: flow_sign_def)
    have "mass_balance_element a tank k nm m
        = bindE (get_cumulative_flow_matrix a nm Out) (\<lambda>mat.
              mat_assign ?N m (k * ?T) ((k + 1) * ?T) (Num (int ?b)) (Num (int (?b + ?c * ?T))) mat)"
      using outflow by (simp add: mass_balance_element_def bindE_def g x del: of_nat_add of_nat_mult mat_assign.simps)
    with step[of Out] show ?thesis
      by (auto simp: s fc)
  next
    case neither
    then have s: "flow_sign tank nm = 0" by (simp add: flow_sign_def)
    have "mass_balance_element a tank k nm m = Inr m"
      using neither by (simp add: mass_balance_element_def bindE_def g x del: of_nat_add of_nat_mult mat_assign.simps)
    then show ?thesis using assms(4,5) by (simp add: s)
  qed
qed

lemma mb_elements_fold:
  assumes "layout_ok a" and "flows_ok a" and "set xs \<subseteq> set (var_names (sim a))"
    and "distinct xs"
    and "length m = n" and "\<forall>r<n. length (m ! r) = x_size a"
    and "(k + 1) * num_steps (sim a) \<le> n"
  shows "\<exists>m'. foldE (mass_balance_element a tank k) xs m = Inr m' \<and> length m' = n
    \<and> (\<forall>r<n. length (m' ! r) = x_size a)
    \<and> (\<forall>r<n. \<forall>i<x_size a.
          m' ! r ! i
            = (if var_names (sim a) ! i \<in> set xs \<and> k * num_steps (sim a) \<le> r
                  \<and> r < (k + 1) * num_steps (sim a)
                  \<and> flow_sign tank (var_names (sim a) ! i) \<noteq> 0
               then flow_coef a tank (r - k * num_steps (sim a)) i else m ! r ! i))"
  using assms(3,4,5,6)
proof (induction xs arbitrary: m)
  case Nil
  then show ?case by simp
next
  case (Cons x xs)
  let ?T = "num_steps (sim a)"
  have x: "x \<in> set (var_names (sim a))" using Cons.prems(1) by simp
  obtain m1 where m1: "mass_balance_element a tank k x m = Inr m1" "length m1 = n"
    "\<forall>r<n. length (m1 ! r) = x_size a"
    "\<forall>r<n. \<forall>i<x_size a. m1 ! r ! i
        = (if var_names (sim a) ! i = x \<and> k * ?T \<le> r \<and> r < (k + 1) * ?T
              \<and> flow_sign tank x \<noteq> 0
           then flow_coef a tank (r - k * ?T) i else m ! r ! i)"
    using mb_element_step[OF assms(1,2) x Cons.prems(3,4) assms(7), of tank] by blast
  have "set xs \<subseteq> set (var_names (sim a))" "distinct xs" using Cons.prems(1,2) by simp_all
  from Cons.IH[OF this m1(2,3)]
  obtain m' where m': "foldE (mass_balance_element a tank k) xs m1 = Inr m'" "length m' = n"
    "\<forall>r<n. length (m' ! r) = x_size a"
    "\<forall>r<n. \<forall>i<x_size a. m' ! r ! i
        = (if var_names (sim a) ! i \<in> set xs \<and> k * ?T \<le> r \<and> r < (k + 1) * ?T
              \<and> flow_sign tank (var_names (sim a) ! i) \<noteq> 0
           then flow_coef a tank (r - k * ?T) i else m1 ! r ! i)"
    by blast
  have "m' ! r ! i
        = (if var_names (sim a) ! i \<in> set (x # xs) \<and> k * ?T \<le> r \<and> r < (k + 1) * ?T
              \<and> flow_sign tank (var_names (sim a) ! i) \<noteq> 0
           then flow_coef a tank (r - k * ?T) i else m ! r ! i)"
    if "r < n" "i < x_size a" for r i
    using m'(4) m1(4) that by auto
  then show ?case
    using m1(1) m'(1,2,3) by simp
qed


lemma layout_x_size: "layout_ok a \<Longrightarrow> x_size a = length (var_names (sim a))"
  by (simp add: layout_ok_def)

lemma min_bound_nth:
  assumes "length mv = T" and "t < T"
  shows "(drop 1 mv @ [fv]) ! t = (if t = T - 1 then fv else mv ! (t + 1))"
  using assms by (auto simp: nth_append)

lemma flow_coef_zero:
  "flow_sign tank (var_names (sim a) ! i) = 0 \<Longrightarrow> flow_coef a tank t i = 0"
  by (simp add: flow_coef_def Let_def)

lemma mb_tank_step:
  assumes "layout_ok a" and "flows_ok a" and "tanks_ok a [tk]" and "0 < num_steps (sim a)"
    and "mb_shape n (x_size a) st" and "(k + 1) * num_steps (sim a) \<le> n"
    and "\<forall>r. k * num_steps (sim a) \<le> r \<and> r < (k + 1) * num_steps (sim a)
           \<longrightarrow> (\<forall>i<x_size a. lhs st ! r ! i = 0)"
  shows "\<exists>st'. mass_balance_tank a (k, tk) st = Inr st' \<and> mb_shape n (x_size a) st'
    \<and> (\<forall>r<n. if k * num_steps (sim a) \<le> r \<and> r < (k + 1) * num_steps (sim a)
              then mb_row a (objs (network (sim a)) tk) (r - k * num_steps (sim a)) st' r
              else mb_same (x_size a) st st' r)"
proof -
  let ?T = "num_steps (sim a)"
  let ?N = "x_size a"
  let ?tank = "objs (network (sim a)) tk"
  let ?lo = "k * ?T"
  let ?hi = "(k + 1) * ?T"
  let ?d = "demand_of ?tank"
  have tk: "map_of (cols (vars ?tank)) ''demand'' = Some ?d" "length ?d = ?T"
    "length (min_vol ?tank) = ?T"
    using assms(3) by (auto simp: tanks_ok_def demand_of_def)
  have sh: "length (lhs st) = n" "\<forall>r<n. length (lhs st ! r) = ?N" "length (lhs_init st) = n"
    "length (rhs_min st) = n" "length (rhs_max st) = n" "length (dem st) = n"
    using assms(5) by (simp_all add: mb_shape_def)
  have hl: "?hi - ?lo = ?T" by simp
  have cg: "col_get (vars ?tank) ''demand'' = Inr ?d"
    by (simp add: col_get_def tk(1))
  let ?dem' = "map (\<lambda>i. if ?lo \<le> i \<and> i < ?hi then cumsum ?d ! (i - ?lo) else dem st ! i)
                 [0..<length (dem st)]"
  have va1: "vec_assign (dem st) ?lo ?hi (cumsum ?d) = Inr ?dem'"
    by (rule vec_assign_exact) (use assms(6) sh(6) tk(2) hl in \<open>simp_all add: cumsum_length\<close>)
  let ?mv = "drop 1 (min_vol ?tank) @ [final_vol ?tank]"
  let ?rmin' = "map (\<lambda>i. if ?lo \<le> i \<and> i < ?hi then ?mv ! (i - ?lo) else rhs_min st ! i)
                  [0..<length (rhs_min st)]"
  have "length ?mv = ?T" using tk(3) assms(4) by simp
  then have va2: "vec_assign (rhs_min st) ?lo ?hi ?mv = Inr ?rmin'"
    by (intro vec_assign_exact) (use assms(6) sh(4) hl in simp_all)
  obtain m' where m': "foldE (mass_balance_element a ?tank k) (unique (var_names (sim a))) (lhs st)
        = Inr m'" "length m' = n" "\<forall>r<n. length (m' ! r) = ?N"
    "\<forall>r<n. \<forall>i<?N. m' ! r ! i
        = (if var_names (sim a) ! i \<in> set (unique (var_names (sim a))) \<and> ?lo \<le> r \<and> r < ?hi
              \<and> flow_sign ?tank (var_names (sim a) ! i) \<noteq> 0
           then flow_coef a ?tank (r - ?lo) i else lhs st ! r ! i)"
  proof -
    have sub: "set (unique (var_names (sim a))) \<subseteq> set (var_names (sim a))"
      by (simp add: set_unique)
    have dist: "distinct (unique (var_names (sim a)))" by (rule distinct_unique)
    show ?thesis
      using mb_elements_fold[OF assms(1,2) sub dist sh(1,2) assms(6), where tank = ?tank] that
      by blast
  qed
  let ?st' = "\<lparr>lhs = m', lhs_init = vec_fill (lhs_init st) ?lo ?hi (initial_vol ?tank),
       rhs_min = ?rmin', rhs_max = vec_fill (rhs_max st) ?lo ?hi (max_vol ?tank), dem = ?dem'\<rparr>"
  have run: "mass_balance_tank a (k, tk) st = Inr ?st'"
    by (simp only: mass_balance_tank_def Let_def bindE_def fst_conv snd_conv cg va1 va2 m'(1)
        sum.case)
  have shape: "mb_shape n ?N ?st'"
    using sh m'(2,3) by (simp add: mb_shape_def vec_fill_def)
  have rows: "if ?lo \<le> r \<and> r < ?hi then mb_row a ?tank (r - ?lo) ?st' r
              else mb_same ?N st ?st' r" if "r < n" for r
  proof (cases "?lo \<le> r \<and> r < ?hi")
    case True
    have "?hi = ?lo + ?T" by simp
    then have t: "r - ?lo < ?T" using True by linarith
    have l: "m' ! r ! i = flow_coef a ?tank (r - ?lo) i" if "i < ?N" for i
    proof -
      have "i < length (var_names (sim a))"
        using that layout_x_size[OF assms(1)] by simp
      then have "var_names (sim a) ! i \<in> set (unique (var_names (sim a)))"
        by (simp add: set_unique)
      then have "m' ! r ! i = (if flow_sign ?tank (var_names (sim a) ! i) \<noteq> 0
           then flow_coef a ?tank (r - ?lo) i else lhs st ! r ! i)"
        using m'(4) \<open>r < n\<close> that True by simp
      then show ?thesis
        using assms(7) True that by (auto simp: flow_coef_zero)
    qed
    have mb: "?mv ! (r - ?lo) = min_bound ?tank ?T (r - ?lo)"
      using min_bound_nth[OF tk(3) t] by (simp add: min_bound_def)
    have "mb_row a ?tank (r - ?lo) ?st' r"
      unfolding mb_row_def
      using that True sh t tk l mb
      by (simp add: vec_fill_def cumsum_nth cum_demand_def)
    then show ?thesis by (simp only: if_P[OF True])
  next
    case False
    have "m' ! r ! i = lhs st ! r ! i" if "i < ?N" for i
      using m'(4) \<open>r < n\<close> that False by auto
    then have "mb_same ?N st ?st' r"
      unfolding mb_same_def
      using that False sh by (auto simp: vec_fill_def)
    then show ?thesis by (simp only: if_not_P[OF False])
  qed
  show ?thesis using run shape rows by blast
qed


lemma mb_same_trans: "mb_same N st st1 r \<Longrightarrow> mb_same N st1 st2 r \<Longrightarrow> mb_same N st st2 r"
  by (simp add: mb_same_def)

lemma mb_row_same:
  "mb_row a tank t st r \<Longrightarrow> mb_same (x_size a) st st' r \<Longrightarrow> mb_row a tank t st' r"
  by (simp add: mb_same_def mb_row_def)

lemma tanks_ok_Cons: "tanks_ok a (tk # tks) \<longleftrightarrow> tanks_ok a [tk] \<and> tanks_ok a tks"
  by (simp add: tanks_ok_def)

lemma mb_tanks_fold:
  assumes "layout_ok a" and "flows_ok a" and "0 < num_steps (sim a)"
  shows "tanks_ok a tks \<Longrightarrow> mb_shape n (x_size a) st
    \<Longrightarrow> (j + length tks) * num_steps (sim a) \<le> n
    \<Longrightarrow> \<forall>r. j * num_steps (sim a) \<le> r \<and> r < (j + length tks) * num_steps (sim a)
           \<longrightarrow> (\<forall>i<x_size a. lhs st ! r ! i = 0)
    \<Longrightarrow> \<exists>st'. foldE (mass_balance_tank a) (enumerate j tks) st = Inr st'
          \<and> mb_shape n (x_size a) st'
          \<and> (\<forall>r<n. r < j * num_steps (sim a) \<or> (j + length tks) * num_steps (sim a) \<le> r
                 \<longrightarrow> mb_same (x_size a) st st' r)
          \<and> (\<forall>k<length tks. \<forall>t<num_steps (sim a).
                 mb_row a (objs (network (sim a)) (tks ! k)) t st'
                   ((j + k) * num_steps (sim a) + t))"
proof (induction tks arbitrary: j st)
  case Nil
  then show ?case by (simp add: mb_same_def)
next
  case (Cons tk tks)
  let ?T = "num_steps (sim a)"
  let ?N = "x_size a"
  have tk: "tanks_ok a [tk]" and tks: "tanks_ok a tks"
    using Cons.prems(1) tanks_ok_Cons by blast+
  have hi: "(j + 1) * ?T \<le> n" "(Suc j + length tks) * ?T \<le> n"
    "(j + 1) * ?T \<le> (Suc j + length tks) * ?T" "(j + length (tk # tks)) * ?T = (Suc j + length tks) * ?T"
    "j * ?T \<le> (j + 1) * ?T"
    using Cons.prems(3) by (simp_all add: algebra_simps)
  have z1: "\<forall>r. j * ?T \<le> r \<and> r < (j + 1) * ?T \<longrightarrow> (\<forall>i<?N. lhs st ! r ! i = 0)"
    using Cons.prems(4) hi(3,4) by (metis order_less_le_trans)
  obtain st1 where st1: "mass_balance_tank a (j, tk) st = Inr st1" "mb_shape n ?N st1"
    "\<forall>r<n. if j * ?T \<le> r \<and> r < (j + 1) * ?T
              then mb_row a (objs (network (sim a)) tk) (r - j * ?T) st1 r
              else mb_same ?N st st1 r"
    using mb_tank_step[OF assms(1,2) tk assms(3) Cons.prems(2) hi(1) z1] by blast
  have same1: "mb_same ?N st st1 r" if "r < n" "r < j * ?T \<or> (j + 1) * ?T \<le> r" for r
    using st1(3) that by (metis leD)
  have z2: "\<forall>r. Suc j * ?T \<le> r \<and> r < (Suc j + length tks) * ?T
           \<longrightarrow> (\<forall>i<?N. lhs st1 ! r ! i = 0)"
  proof (intro allI impI)
    fix r i assume r: "Suc j * ?T \<le> r \<and> r < (Suc j + length tks) * ?T" and i: "i < ?N"
    then have "r < n" "(j + 1) * ?T \<le> r" using hi(2) by simp_all
    then have "mb_same ?N st st1 r" using same1 by blast
    then have "lhs st1 ! r ! i = lhs st ! r ! i" using i by (simp add: mb_same_def)
    moreover have "j * ?T \<le> r \<and> r < (j + length (tk # tks)) * ?T"
      using r hi(4,5) by simp
    ultimately show "lhs st1 ! r ! i = 0" using Cons.prems(4) i by metis
  qed
  from Cons.IH[OF tks st1(2) hi(2) z2]
  obtain st' where st': "foldE (mass_balance_tank a) (enumerate (Suc j) tks) st1 = Inr st'"
    "mb_shape n ?N st'"
    "\<forall>r<n. r < Suc j * ?T \<or> (Suc j + length tks) * ?T \<le> r \<longrightarrow> mb_same ?N st1 st' r"
    "\<forall>k<length tks. \<forall>t<?T.
        mb_row a (objs (network (sim a)) (tks ! k)) t st' ((Suc j + k) * ?T + t)"
    by blast
  have run: "foldE (mass_balance_tank a) (enumerate j (tk # tks)) st = Inr st'"
    by (simp add: st1(1) st'(1))
  have out: "mb_same ?N st st' r"
    if "r < n" "r < j * ?T \<or> (j + length (tk # tks)) * ?T \<le> r" for r
  proof -
    have a1: "r < j * ?T \<or> (j + 1) * ?T \<le> r" using that(2) hi(3,4) by linarith
    have a2: "r < Suc j * ?T \<or> (Suc j + length tks) * ?T \<le> r" using that(2) hi(4,5) by auto
    show ?thesis
      using same1[OF that(1) a1] st'(3) that(1) a2 by (blast intro: mb_same_trans)
  qed
  have rows: "mb_row a (objs (network (sim a)) ((tk # tks) ! k)) t st' ((j + k) * ?T + t)"
    if "k < length (tk # tks)" "t < ?T" for k t
  proof (cases k)
    case 0
    have r: "j * ?T \<le> j * ?T + t \<and> j * ?T + t < (j + 1) * ?T" using that(2) by simp
    then have rn: "j * ?T + t < n" using hi(1) by linarith
    have "mb_row a (objs (network (sim a)) tk) (j * ?T + t - j * ?T) st1 (j * ?T + t)"
      using st1(3) rn r by (metis (no_types, lifting))
    then have "mb_row a (objs (network (sim a)) tk) t st1 (j * ?T + t)" by simp
    moreover have "mb_same ?N st1 st' (j * ?T + t)"
      using st'(3) rn r by simp
    ultimately show ?thesis using 0 by (simp add: mb_row_same)
  next
    case (Suc k')
    then have "k' < length tks" using that(1) by simp
    then have "mb_row a (objs (network (sim a)) (tks ! k')) t st' ((Suc j + k') * ?T + t)"
      using st'(4) that(2) by blast
    then show ?thesis using Suc by simp
  qed
  show ?case using run st'(2) out rows by blast
qed



lemma row_index_bound:
  fixes k m t T :: nat
  assumes "k < m" and "t < T"
  shows "k * T + t < m * (T::nat)"
proof -
  have "k * T + t < (k + 1) * T" using assms(2) by simp
  also have "\<dots> \<le> m * T" using assms(1) by (intro mult_le_mono1) simp
  finally show ?thesis .
qed

lemma mass_balance_arrays:
  assumes "layout_ok a" and "flows_ok a" and "tanks_ok a tks" and "0 < num_steps (sim a)"
  shows "\<exists>st. foldE (mass_balance_tank a) (enumerate 0 tks)
                \<lparr>lhs = zeros (length tks * num_steps (sim a)) (x_size a),
                 lhs_init = replicate (length tks * num_steps (sim a)) 0,
                 rhs_min = replicate (length tks * num_steps (sim a)) 0,
                 rhs_max = replicate (length tks * num_steps (sim a)) 0,
                 dem = replicate (length tks * num_steps (sim a)) 0\<rparr> = Inr st
    \<and> mb_shape (length tks * num_steps (sim a)) (x_size a) st
    \<and> (\<forall>k<length tks. \<forall>t<num_steps (sim a).
           mb_row a (objs (network (sim a)) (tks ! k)) t st (k * num_steps (sim a) + t))"
proof -
  let ?T = "num_steps (sim a)"
  let ?n = "length tks * ?T"
  let ?st0 = "\<lparr>lhs = zeros ?n (x_size a), lhs_init = replicate ?n 0, rhs_min = replicate ?n 0,
                 rhs_max = replicate ?n 0, dem = replicate ?n 0\<rparr>"
  have sh: "mb_shape ?n (x_size a) ?st0"
    by (simp add: mb_shape_def zeros_shape)
  have z: "\<forall>r. 0 * ?T \<le> r \<and> r < (0 + length tks) * ?T \<longrightarrow> (\<forall>i<x_size a. lhs ?st0 ! r ! i = 0)"
    by (simp add: zeros_shape)
  have le: "(0 + length tks) * ?T \<le> ?n" by simp
  from mb_tanks_fold[OF assms(1,2,4,3) sh le z]
  show ?thesis by (auto simp: )
qed

lemma np_op_same:
  "length u = length v \<Longrightarrow> np_op f u v = map2 f u v"
  by (simp add: np_op_def)

lemma mass_balance_result:
  assumes "layout_ok a" and "flows_ok a" and "tanks_ok a tks" and "0 < num_steps (sim a)"
    and "tks \<noteq> []"
    and "am \<noteq> None \<longrightarrow> fst (z_shape a) * snd (z_shape a) = length tks * num_steps (sim a)"
    and "am = None \<longrightarrow> x_depend a \<noteq> {}"
  shows "\<exists>cle cge L. mass_balance a tks am = Inr [cle, cge]
    \<and> c_lhs cle = MatX L [0..<x_size a] \<and> c_lhs cge = MatX L [0..<x_size a]
    \<and> c_rel cle = LE \<and> c_rel cge = GE
    \<and> c_forall cle = Some (z_set a) \<and> c_forall cge = Some (z_set a)
    \<and> length L = length tks * num_steps (sim a)
    \<and> (\<forall>k<length tks. \<forall>t<num_steps (sim a).
          length (L ! (k * num_steps (sim a) + t)) = x_size a
          \<and> (\<forall>i<x_size a. L ! (k * num_steps (sim a) + t) ! i
                 = flow_coef a (objs (network (sim a)) (tks ! k)) t i))
    \<and> (\<forall>z. am = None \<or> length z = length tks * num_steps (sim a) \<longrightarrow>
          (\<exists>wmax wmin. c_rhs cle z = Vec wmax \<and> c_rhs cge z = Vec wmin
             \<and> length wmax = length tks * num_steps (sim a)
             \<and> length wmin = length tks * num_steps (sim a)
             \<and> (\<forall>k<length tks. \<forall>t<num_steps (sim a).
                   wmax ! (k * num_steps (sim a) + t)
                     = max_vol (objs (network (sim a)) (tks ! k))
                       + demand_offset a am (objs (network (sim a)) (tks ! k)) t
                           (z ! (k * num_steps (sim a) + t))
                       - initial_vol (objs (network (sim a)) (tks ! k))
                   \<and> wmin ! (k * num_steps (sim a) + t)
                     = min_bound (objs (network (sim a)) (tks ! k)) (num_steps (sim a)) t
                       + demand_offset a am (objs (network (sim a)) (tks ! k)) t
                           (z ! (k * num_steps (sim a) + t))
                       - initial_vol (objs (network (sim a)) (tks ! k)))))"
proof -
  let ?T = "num_steps (sim a)"
  let ?n = "length tks * ?T"
  let ?N = "x_size a"
  let ?tank = "\<lambda>k. objs (network (sim a)) (tks ! k)"
  obtain st where st: "foldE (mass_balance_tank a) (enumerate 0 tks)
                \<lparr>lhs = zeros ?n ?N, lhs_init = replicate ?n 0, rhs_min = replicate ?n 0,
                 rhs_max = replicate ?n 0, dem = replicate ?n 0\<rparr> = Inr st"
    "mb_shape ?n ?N st"
    "\<forall>k<length tks. \<forall>t<?T. mb_row a (?tank k) t st (k * ?T + t)"
    using mass_balance_arrays[OF assms(1-4)] by blast
  have sh: "length (lhs st) = ?n" "\<forall>r<?n. length (lhs st ! r) = ?N" "length (lhs_init st) = ?n"
    "length (rhs_min st) = ?n" "length (rhs_max st) = ?n" "length (dem st) = ?n"
    using st(2) by (simp_all add: mb_shape_def)
  have row: "dem st ! (k * ?T + t) = cum_demand (?tank k) t"
    "rhs_min st ! (k * ?T + t) = min_bound (?tank k) ?T t"
    "rhs_max st ! (k * ?T + t) = max_vol (?tank k)"
    "lhs_init st ! (k * ?T + t) = initial_vol (?tank k)"
    "\<forall>i<?N. lhs st ! (k * ?T + t) ! i = flow_coef a (?tank k) t i"
    "k * ?T + t < ?n"
    if "k < length tks" "t < ?T" for k t
    using st(3) that row_index_bound[OF that] by (simp_all add: mb_row_def)
  have L: "\<forall>k<length tks. \<forall>t<?T. length (lhs st ! (k * ?T + t)) = ?N
          \<and> (\<forall>i<?N. lhs st ! (k * ?T + t) ! i = flow_coef a (?tank k) t i)"
    using row(5,6) sh(2) by blast
  show ?thesis
  proof (cases am)
    case None
    let ?cle = "forall_constr a (MatX (lhs st) [0..<?N]) LE
                  (\<lambda>z. Vec (map2 (-) (map2 (+) (rhs_max st) (dem st)) (lhs_init st)))"
    let ?cge = "forall_constr a (MatX (lhs st) [0..<?N]) GE
                  (\<lambda>z. Vec (map2 (-) (map2 (+) (rhs_min st) (dem st)) (lhs_init st)))"
    have ad: "x_depend a \<noteq> {}" using assms(7) None by simp
    have run: "mass_balance a tks am = Inr [?cle, ?cge]"
      using assms(5) None
      by (simp add: mass_balance_def Let_def bindE_def st(1) robust_adapted[OF ad])
    have w: "map2 (-) (map2 (+) (rhs_max st) (dem st)) (lhs_init st) ! (k * ?T + t)
          = max_vol (?tank k) + demand_offset a am (?tank k) t zv - initial_vol (?tank k)"
      "map2 (-) (map2 (+) (rhs_min st) (dem st)) (lhs_init st) ! (k * ?T + t)
          = min_bound (?tank k) ?T t + demand_offset a am (?tank k) t zv - initial_vol (?tank k)"
      if "k < length tks" "t < ?T" for k t zv
      using row[OF that] sh None by (simp_all add: demand_offset_def)
    show ?thesis
      apply (rule exI[of _ ?cle], rule exI[of _ ?cge], rule exI[of _ "lhs st"])
      using run L w sh by (simp add: forall_constr_def)
  next
    case (Some d)
    then have zs: "fst (z_shape a) * snd (z_shape a) = ?n" using assms(6) by simp
    let ?rh = "\<lambda>b z. np_op (-) (np_op (+) b (np_op (*) (map (\<lambda>v. 1 + lou a * v) z) (dem st)))
                 (lhs_init st)"
    let ?cle = "forall_constr a (MatX (lhs st) [0..<?N]) LE (\<lambda>z. Vec (?rh (rhs_max st) z))"
    let ?cge = "forall_constr a (MatX (lhs st) [0..<?N]) GE (\<lambda>z. Vec (?rh (rhs_min st) z))"
    have run: "mass_balance a tks am = Inr [?cle, ?cge]"
      using assms(5) Some zs
      by (simp add: mass_balance_def Let_def bindE_def st(1) robust_rand)
    have rh: "?rh b z = map2 (-) (map2 (+) b (map2 (*) (map (\<lambda>v. 1 + lou a * v) z) (dem st)))
                 (lhs_init st)" if "length b = ?n" "length z = ?n" for b z
      using that sh by (simp add: np_op_same)
    have w: "?rh (rhs_max st) z ! (k * ?T + t)
          = max_vol (?tank k) + demand_offset a am (?tank k) t (z ! (k * ?T + t))
            - initial_vol (?tank k)"
      "?rh (rhs_min st) z ! (k * ?T + t)
          = min_bound (?tank k) ?T t + demand_offset a am (?tank k) t (z ! (k * ?T + t))
            - initial_vol (?tank k)"
      if "k < length tks" "t < ?T" "length z = ?n" for k t z
      using row[OF that(1,2)] sh Some that(3)
      by (simp_all add: rh demand_offset_def)
    have len: "length (?rh b z) = ?n" if "length b = ?n" "length z = ?n" for b z
      using that sh by (simp add: rh)
    show ?thesis
      apply (rule exI[of _ ?cle], rule exI[of _ ?cge], rule exI[of _ "lhs st"])
      using run L w sh len Some by (simp add: forall_constr_def)
  qed
qed












lemma tanks_ok_filter: "tanks_ok a tks \<Longrightarrow> tanks_ok a (filter P tks)"
  by (simp add: tanks_ok_def list_all_iff)

lemma mass_balance_empty: "mass_balance a [] am = Inr []"
  by (simp add: mass_balance_def)

lemma mass_balance_offsets:
  assumes "layout_ok a" and "flows_ok a" and "tanks_ok a tks" and "0 < num_steps (sim a)"
    and "tks \<noteq> [] \<and> am \<noteq> None
           \<longrightarrow> fst (z_shape a) * snd (z_shape a) = length tks * num_steps (sim a)"
    and "tks \<noteq> [] \<and> am = None \<longrightarrow> x_depend a \<noteq> {}"
  shows "\<exists>cs. mass_balance a tks am = Inr cs
    \<and> (if tks = [] then cs = []
        else (\<exists>cle cge. cs = [cle, cge]
          \<and> c_forall cle = Some (z_set a) \<and> c_forall cge = Some (z_set a)
          \<and> (\<forall>z. am = None \<or> length z = length tks * num_steps (sim a) \<longrightarrow>
               (\<exists>wmax wmin. c_rhs cle z = Vec wmax \<and> c_rhs cge z = Vec wmin
                  \<and> (\<forall>k<length tks. \<forall>t<num_steps (sim a).
                        wmax ! (k * num_steps (sim a) + t)
                          = max_vol (objs (network (sim a)) (tks ! k))
                            + (case am of
                                 None \<Rightarrow> cum_demand (objs (network (sim a)) (tks ! k)) t
                               | Some d \<Rightarrow>
                                   (1 + lou a * z ! (k * num_steps (sim a) + t))
                                     * cum_demand (objs (network (sim a)) (tks ! k)) t)
                            - initial_vol (objs (network (sim a)) (tks ! k))
                        \<and> wmin ! (k * num_steps (sim a) + t)
                          = min_bound (objs (network (sim a)) (tks ! k)) (num_steps (sim a)) t
                            + (case am of
                                 None \<Rightarrow> cum_demand (objs (network (sim a)) (tks ! k)) t
                               | Some d \<Rightarrow>
                                   (1 + lou a * z ! (k * num_steps (sim a) + t))
                                     * cum_demand (objs (network (sim a)) (tks ! k)) t)
                            - initial_vol (objs (network (sim a)) (tks ! k)))))))"
proof (cases "tks = []")
  case True
  then show ?thesis by (simp add: mass_balance_empty)
next
  case False
  let ?T = "num_steps (sim a)"
  have zs: "am \<noteq> None \<longrightarrow> fst (z_shape a) * snd (z_shape a) = length tks * ?T"
    using assms(5) False by simp
  have ad: "am = None \<longrightarrow> x_depend a \<noteq> {}" using assms(6) False by simp
  obtain cle cge where run: "mass_balance a tks am = Inr [cle, cge]"
    and fa: "c_forall cle = Some (z_set a)" "c_forall cge = Some (z_set a)"
    and rh: "\<forall>z. am = None \<or> length z = length tks * ?T \<longrightarrow>
          (\<exists>wmax wmin. c_rhs cle z = Vec wmax \<and> c_rhs cge z = Vec wmin
             \<and> length wmax = length tks * ?T \<and> length wmin = length tks * ?T
             \<and> (\<forall>k<length tks. \<forall>t<?T.
                   wmax ! (k * ?T + t)
                     = max_vol (objs (network (sim a)) (tks ! k))
                       + demand_offset a am (objs (network (sim a)) (tks ! k)) t
                           (z ! (k * ?T + t))
                       - initial_vol (objs (network (sim a)) (tks ! k))
                   \<and> wmin ! (k * ?T + t)
                     = min_bound (objs (network (sim a)) (tks ! k)) ?T t
                       + demand_offset a am (objs (network (sim a)) (tks ! k)) t
                           (z ! (k * ?T + t))
                       - initial_vol (objs (network (sim a)) (tks ! k))))"
    using mass_balance_result[OF assms(1-4) False zs ad] by blast
  have off: "demand_offset a am tank t zv
      = (case am of None \<Rightarrow> cum_demand tank t | Some d \<Rightarrow> (1 + lou a * zv) * cum_demand tank t)"
    for tank t zv
    by (simp add: demand_offset_def)
  have "\<forall>z. am = None \<or> length z = length tks * ?T \<longrightarrow>
               (\<exists>wmax wmin. c_rhs cle z = Vec wmax \<and> c_rhs cge z = Vec wmin
                  \<and> (\<forall>k<length tks. \<forall>t<?T.
                        wmax ! (k * ?T + t)
                          = max_vol (objs (network (sim a)) (tks ! k))
                            + (case am of
                                 None \<Rightarrow> cum_demand (objs (network (sim a)) (tks ! k)) t
                               | Some d \<Rightarrow>
                                   (1 + lou a * z ! (k * ?T + t))
                                     * cum_demand (objs (network (sim a)) (tks ! k)) t)
                            - initial_vol (objs (network (sim a)) (tks ! k))
                        \<and> wmin ! (k * ?T + t)
                          = min_bound (objs (network (sim a)) (tks ! k)) ?T t
                            + (case am of
                                 None \<Rightarrow> cum_demand (objs (network (sim a)) (tks ! k)) t
                               | Some d \<Rightarrow>
                                   (1 + lou a * z ! (k * ?T + t))
                                     * cum_demand (objs (network (sim a)) (tks ! k)) t)
                            - initial_vol (objs (network (sim a)) (tks ! k))))"
  proof (intro allI impI)
    fix z :: "real list" assume "am = None \<or> length z = length tks * ?T"
    with rh obtain wmax wmin where w: "c_rhs cle z = Vec wmax" "c_rhs cge z = Vec wmin"
      "\<forall>k<length tks. \<forall>t<?T.
                   wmax ! (k * ?T + t)
                     = max_vol (objs (network (sim a)) (tks ! k))
                       + demand_offset a am (objs (network (sim a)) (tks ! k)) t
                           (z ! (k * ?T + t))
                       - initial_vol (objs (network (sim a)) (tks ! k))
                   \<and> wmin ! (k * ?T + t)
                     = min_bound (objs (network (sim a)) (tks ! k)) ?T t
                       + demand_offset a am (objs (network (sim a)) (tks ! k)) t
                           (z ! (k * ?T + t))
                       - initial_vol (objs (network (sim a)) (tks ! k))"
      by blast
    show "\<exists>wmax wmin. c_rhs cle z = Vec wmax \<and> c_rhs cge z = Vec wmin
                  \<and> (\<forall>k<length tks. \<forall>t<?T.
                        wmax ! (k * ?T + t)
                          = max_vol (objs (network (sim a)) (tks ! k))
                            + (case am of
                                 None \<Rightarrow> cum_demand (objs (network (sim a)) (tks ! k)) t
                               | Some d \<Rightarrow>
                                   (1 + lou a * z ! (k * ?T + t))
                                     * cum_demand (objs (network (sim a)) (tks ! k)) t)
                            - initial_vol (objs (network (sim a)) (tks ! k))
                        \<and> wmin ! (k * ?T + t)
                          = min_bound (objs (network (sim a)) (tks ! k)) ?T t
                            + (case am of
                                 None \<Rightarrow> cum_demand (objs (network (sim a)) (tks ! k)) t
                               | Some d \<Rightarrow>
                                   (1 + lou a * z ! (k * ?T + t))
                                     * cum_demand (objs (network (sim a)) (tks ! k)) t)
                            - initial_vol (objs (network (sim a)) (tks ! k)))"
      using w(3) by (intro exI[of _ wmax] exI[of _ wmin] conjI w(1,2)) (simp only: off)
  qed
  then show ?thesis using run fa False by simp
qed

text \<open>
  C4, as the code has it. \<open>build_mass_balance\<close> hands the affine map \<open>delta\<close> of the
  uncertainty of the demand to \<open>mass_balance\<close> for the tanks subject to the uncertainty,
  and \<open>None\<close> for the other tanks. When \<open>delta\<close> is not \<open>None\<close>, the two constraints of
  the tanks subject to the uncertainty have, in the row of tank \<open>k\<close> and step \<open>t\<close>, the
  demand offset \<open>(1 + lou \<sdot> z_flat[row]) \<sdot> cum_demand\<close> and no other term in \<open>z\<close>; when
  \<open>delta\<close> is \<open>None\<close> their offset is the nominal cumulative demand, whatever \<open>z\<close> is. The
  constraints of the other tanks have the nominal cumulative demand as offset. A
  constraint with a nominal offset needs an adapted decision rule.
\<close>

theorem build_mass_balance_offsets:
  assumes "layout_ok a" and "flows_ok a" and "tanks_ok a (tanks (network (sim a)))"
    and "0 < num_steps (sim a)"
    and "udata_demand a = Some u"
    and "utanks = filter (\<lambda>nm. nm \<in> set (u_elements u)) (tanks (network (sim a)))"
    and "dtanks = filter (\<lambda>nm. nm \<notin> set utanks) (tanks (network (sim a)))"
    and "utanks \<noteq> [] \<and> delta u \<noteq> None
           \<longrightarrow> fst (z_shape a) * snd (z_shape a) = length utanks * num_steps (sim a)"
    and "(utanks \<noteq> [] \<and> delta u = None) \<or> dtanks \<noteq> [] \<longrightarrow> ldr_ready a"
  shows "\<exists>ucs cs. build_mass_balance a = Inr (ucs @ cs)
    \<and> mass_balance a utanks (delta u) = Inr ucs \<and> mass_balance a dtanks None = Inr cs
    \<and> (if utanks = [] then ucs = []
        else (\<exists>ule uge. ucs = [ule, uge]
          \<and> c_forall ule = Some (z_set a) \<and> c_forall uge = Some (z_set a)
          \<and> (\<forall>z. delta u = None \<or> length z = length utanks * num_steps (sim a) \<longrightarrow>
               (\<exists>wmax wmin. c_rhs ule z = Vec wmax \<and> c_rhs uge z = Vec wmin
                  \<and> (\<forall>k<length utanks. \<forall>t<num_steps (sim a).
                        wmax ! (k * num_steps (sim a) + t)
                          = max_vol (objs (network (sim a)) (utanks ! k))
                            + (case delta u of
                                 None \<Rightarrow> cum_demand (objs (network (sim a)) (utanks ! k)) t
                               | Some d \<Rightarrow>
                                   (1 + lou a * z ! (k * num_steps (sim a) + t))
                                     * cum_demand (objs (network (sim a)) (utanks ! k)) t)
                            - initial_vol (objs (network (sim a)) (utanks ! k))
                        \<and> wmin ! (k * num_steps (sim a) + t)
                          = min_bound (objs (network (sim a)) (utanks ! k)) (num_steps (sim a)) t
                            + (case delta u of
                                 None \<Rightarrow> cum_demand (objs (network (sim a)) (utanks ! k)) t
                               | Some d \<Rightarrow>
                                   (1 + lou a * z ! (k * num_steps (sim a) + t))
                                     * cum_demand (objs (network (sim a)) (utanks ! k)) t)
                            - initial_vol (objs (network (sim a)) (utanks ! k)))))))
    \<and> (if dtanks = [] then cs = []
        else (\<exists>dle dge. cs = [dle, dge]
          \<and> c_forall dle = Some (z_set a) \<and> c_forall dge = Some (z_set a)
          \<and> (\<forall>z. \<exists>wmax wmin. c_rhs dle z = Vec wmax \<and> c_rhs dge z = Vec wmin
               \<and> (\<forall>k<length dtanks. \<forall>t<num_steps (sim a).
                     wmax ! (k * num_steps (sim a) + t)
                       = max_vol (objs (network (sim a)) (dtanks ! k))
                         + cum_demand (objs (network (sim a)) (dtanks ! k)) t
                         - initial_vol (objs (network (sim a)) (dtanks ! k))
                     \<and> wmin ! (k * num_steps (sim a) + t)
                       = min_bound (objs (network (sim a)) (dtanks ! k)) (num_steps (sim a)) t
                         + cum_demand (objs (network (sim a)) (dtanks ! k)) t
                         - initial_vol (objs (network (sim a)) (dtanks ! k))))))"
proof -
  let ?T = "num_steps (sim a)"
  have tu: "tanks_ok a utanks" and td: "tanks_ok a dtanks"
    using assms(3,6,7) by (simp_all add: tanks_ok_filter)
  have uad: "utanks \<noteq> [] \<and> delta u = None \<longrightarrow> x_depend a \<noteq> {}"
    using assms(9) ldr_readyD(1)[of a] by blast
  have dz: "dtanks \<noteq> [] \<and> (None::real list list option) \<noteq> None
      \<longrightarrow> fst (z_shape a) * snd (z_shape a) = length dtanks * ?T"
    by simp
  have dad: "dtanks \<noteq> [] \<and> (None::real list list option) = None \<longrightarrow> x_depend a \<noteq> {}"
    using assms(9) ldr_readyD(1)[of a] by blast
  note up = mass_balance_offsets[OF assms(1,2) tu assms(4,8) uad]
  note dp = mass_balance_offsets[OF assms(1,2) td assms(4) dz dad]
  obtain ucs where ucs: "mass_balance a utanks (delta u) = Inr ucs"
    and urest: "if utanks = [] then ucs = []
        else (\<exists>ule uge. ucs = [ule, uge]
          \<and> c_forall ule = Some (z_set a) \<and> c_forall uge = Some (z_set a)
          \<and> (\<forall>z. delta u = None \<or> length z = length utanks * ?T \<longrightarrow>
               (\<exists>wmax wmin. c_rhs ule z = Vec wmax \<and> c_rhs uge z = Vec wmin
                  \<and> (\<forall>k<length utanks. \<forall>t<?T.
                        wmax ! (k * ?T + t)
                          = max_vol (objs (network (sim a)) (utanks ! k))
                            + (case delta u of
                                 None \<Rightarrow> cum_demand (objs (network (sim a)) (utanks ! k)) t
                               | Some d \<Rightarrow>
                                   (1 + lou a * z ! (k * ?T + t))
                                     * cum_demand (objs (network (sim a)) (utanks ! k)) t)
                            - initial_vol (objs (network (sim a)) (utanks ! k))
                        \<and> wmin ! (k * ?T + t)
                          = min_bound (objs (network (sim a)) (utanks ! k)) ?T t
                            + (case delta u of
                                 None \<Rightarrow> cum_demand (objs (network (sim a)) (utanks ! k)) t
                               | Some d \<Rightarrow>
                                   (1 + lou a * z ! (k * ?T + t))
                                     * cum_demand (objs (network (sim a)) (utanks ! k)) t)
                            - initial_vol (objs (network (sim a)) (utanks ! k))))))"
    using up by blast
  obtain cs where cs: "mass_balance a dtanks None = Inr cs"
    and drest0: "if dtanks = [] then cs = []
        else (\<exists>dle dge. cs = [dle, dge]
          \<and> c_forall dle = Some (z_set a) \<and> c_forall dge = Some (z_set a)
          \<and> (\<forall>z. (None::real list list option) = None \<or> length z = length dtanks * ?T \<longrightarrow>
               (\<exists>wmax wmin. c_rhs dle z = Vec wmax \<and> c_rhs dge z = Vec wmin
                  \<and> (\<forall>k<length dtanks. \<forall>t<?T.
                        wmax ! (k * ?T + t)
                          = max_vol (objs (network (sim a)) (dtanks ! k))
                            + (case (None::real list list option) of
                                 None \<Rightarrow> cum_demand (objs (network (sim a)) (dtanks ! k)) t
                               | Some d \<Rightarrow>
                                   (1 + lou a * z ! (k * ?T + t))
                                     * cum_demand (objs (network (sim a)) (dtanks ! k)) t)
                            - initial_vol (objs (network (sim a)) (dtanks ! k))
                        \<and> wmin ! (k * ?T + t)
                          = min_bound (objs (network (sim a)) (dtanks ! k)) ?T t
                            + (case (None::real list list option) of
                                 None \<Rightarrow> cum_demand (objs (network (sim a)) (dtanks ! k)) t
                               | Some d \<Rightarrow>
                                   (1 + lou a * z ! (k * ?T + t))
                                     * cum_demand (objs (network (sim a)) (dtanks ! k)) t)
                            - initial_vol (objs (network (sim a)) (dtanks ! k))))))"
    using dp by blast
  have drest: "if dtanks = [] then cs = []
        else (\<exists>dle dge. cs = [dle, dge]
          \<and> c_forall dle = Some (z_set a) \<and> c_forall dge = Some (z_set a)
          \<and> (\<forall>z. \<exists>wmax wmin. c_rhs dle z = Vec wmax \<and> c_rhs dge z = Vec wmin
               \<and> (\<forall>k<length dtanks. \<forall>t<?T.
                     wmax ! (k * ?T + t)
                       = max_vol (objs (network (sim a)) (dtanks ! k))
                         + cum_demand (objs (network (sim a)) (dtanks ! k)) t
                         - initial_vol (objs (network (sim a)) (dtanks ! k))
                     \<and> wmin ! (k * ?T + t)
                       = min_bound (objs (network (sim a)) (dtanks ! k)) ?T t
                         + cum_demand (objs (network (sim a)) (dtanks ! k)) t
                         - initial_vol (objs (network (sim a)) (dtanks ! k)))))"
    using drest0 by (simp only: option.case simp_thms)
  have run: "build_mass_balance a = Inr (ucs @ cs)"
    using assms(5) ucs cs
    by (simp add: build_mass_balance_def Let_def bindE_def assms(6)[symmetric] assms(7)[symmetric])
  show ?thesis
    using run ucs cs urest drest by blast
qed


theorem build_mass_balance_offsets_witness:
  "layout_ok ex_aro_delta \<and> flows_ok ex_aro_delta
   \<and> tanks_ok ex_aro_delta (tanks (network (sim ex_aro_delta)))
   \<and> 0 < num_steps (sim ex_aro_delta)
   \<and> udata_demand ex_aro_delta = Some \<lparr>u_elements = [''t1''], delta = Some [[1, 0], [0, 1]]\<rparr>
   \<and> fst (z_shape ex_aro_delta) * snd (z_shape ex_aro_delta)
        = length [''t1''] * num_steps (sim ex_aro_delta)
   \<and> ldr_ready ex_aro_delta
   \<and> (\<exists>ule uge wmax. build_mass_balance ex_aro_delta = Inr [ule, uge]
          \<and> c_rhs ule [1, - 1] = Vec wmax \<and> wmax ! 0 = 55 \<and> wmax ! 1 = 45)"
proof -
  let ?u = "\<lparr>u_elements = [''t1''], delta = Some [[1, 0], [0, 1::real]]\<rparr>"
  have h: "layout_ok ex_aro_delta" "flows_ok ex_aro_delta"
    "tanks_ok ex_aro_delta (tanks (network (sim ex_aro_delta)))"
    "0 < num_steps (sim ex_aro_delta)"
    by code_simp+
  have rd: "ldr_ready ex_aro_delta" by code_simp
  have u: "udata_demand ex_aro_delta = Some ?u"
    by (simp_all add: ex_aro_delta_def)
  have f: "[''t1''] = filter (\<lambda>nm. nm \<in> set (u_elements ?u)) (tanks (network (sim ex_aro_delta)))"
    "[] = filter (\<lambda>nm. nm \<notin> set [''t1'']) (tanks (network (sim ex_aro_delta)))"
    by (simp_all add: ex_aro_delta_def ex_aro_def ex_sim_def ex_net_def)
  have zs: "fst (z_shape ex_aro_delta) * snd (z_shape ex_aro_delta)
        = length [''t1''] * num_steps (sim ex_aro_delta)"
    by (simp add: ex_aro_delta_def ex_aro_def ex_sim_def)
  have zs': "[''t1''] \<noteq> [] \<and> delta ?u \<noteq> None
           \<longrightarrow> fst (z_shape ex_aro_delta) * snd (z_shape ex_aro_delta)
                 = length [''t1''] * num_steps (sim ex_aro_delta)"
    using zs by simp
  have rd': "([''t1''] \<noteq> [] \<and> delta ?u = None) \<or> ([]::string list) \<noteq> []
      \<longrightarrow> ldr_ready ex_aro_delta"
    using rd by simp
  have v: "num_steps (sim ex_aro_delta) = 2" "lou ex_aro_delta = 1 / 2"
    "max_vol (objs (network (sim ex_aro_delta)) ''t1'') = 20"
    "initial_vol (objs (network (sim ex_aro_delta)) ''t1'') = 10"
    "cum_demand (objs (network (sim ex_aro_delta)) ''t1'') 0 = 30"
    "cum_demand (objs (network (sim ex_aro_delta)) ''t1'') (Suc 0) = 70"
    by code_simp+
  from build_mass_balance_offsets[OF h u f zs' rd']
  obtain ule uge cs where r: "build_mass_balance ex_aro_delta = Inr ([ule, uge] @ cs)" "cs = []"
    and w: "\<And>z. length z = length [''t1''] * num_steps (sim ex_aro_delta) \<Longrightarrow>
          \<exists>wmax wmin. c_rhs ule z = Vec wmax \<and> c_rhs uge z = Vec wmin
             \<and> (\<forall>k<length [''t1'']. \<forall>t<num_steps (sim ex_aro_delta).
                   wmax ! (k * num_steps (sim ex_aro_delta) + t)
                     = max_vol (objs (network (sim ex_aro_delta)) ([''t1''] ! k))
                       + (1 + lou ex_aro_delta * z ! (k * num_steps (sim ex_aro_delta) + t))
                           * cum_demand (objs (network (sim ex_aro_delta)) ([''t1''] ! k)) t
                       - initial_vol (objs (network (sim ex_aro_delta)) ([''t1''] ! k))
                   \<and> wmin ! (k * num_steps (sim ex_aro_delta) + t)
                     = min_bound (objs (network (sim ex_aro_delta)) ([''t1''] ! k))
                         (num_steps (sim ex_aro_delta)) t
                       + (1 + lou ex_aro_delta * z ! (k * num_steps (sim ex_aro_delta) + t))
                           * cum_demand (objs (network (sim ex_aro_delta)) ([''t1''] ! k)) t
                       - initial_vol (objs (network (sim ex_aro_delta)) ([''t1''] ! k)))"
    by (auto simp: )
  have "length [1, - 1 :: real] = length [''t1''] * num_steps (sim ex_aro_delta)"
    by (simp add: v)
  from w[OF this] obtain wmax where wm: "c_rhs ule [1, - 1] = Vec wmax"
    "\<forall>k<length [''t1'']. \<forall>t<num_steps (sim ex_aro_delta).
        wmax ! (k * num_steps (sim ex_aro_delta) + t)
          = max_vol (objs (network (sim ex_aro_delta)) ([''t1''] ! k))
            + (1 + lou ex_aro_delta * [1, - 1] ! (k * num_steps (sim ex_aro_delta) + t))
                * cum_demand (objs (network (sim ex_aro_delta)) ([''t1''] ! k)) t
            - initial_vol (objs (network (sim ex_aro_delta)) ([''t1''] ! k))"
    by blast
  have "wmax ! 0 = 55" using wm(2)[rule_format, of 0 0] by (simp add: v)
  moreover have "wmax ! 1 = 45" using wm(2)[rule_format, of 0 1] by (simp add: v)
  ultimately show ?thesis
    using h u zs rd r wm(1) by auto
qed

text \<open>
  The claim C4 as the specification states it fails when the uncertainty of the demand
  has no affine map: in the small network the tank \<open>t1\<close> is subject to the uncertainty
  and \<open>delta\<close> is \<open>None\<close>, and the offset of its constraints is the nominal cumulative
  demand, whatever \<open>z\<close> is: the first row of the maximum is \<open>20 + 30 - 10\<close>, where
  the claim gives \<open>20 + (1 + lou \<sdot> 1) \<sdot> 30 - 10\<close> at \<open>z = [1, -1]\<close>.
\<close>

theorem build_mass_balance_no_delta:
  "map_option u_elements (udata_demand ex_aro) = Some [''t1'']
   \<and> map_option delta (udata_demand ex_aro) = Some None
   \<and> (case build_mass_balance ex_aro of
         Inr [c1, c2] \<Rightarrow> c_rhs c1 [1, - 1] = Vec [40, 80] \<and> c_rhs c1 [0, 0] = Vec [40, 80]
       | _ \<Rightarrow> False)
   \<and> max_vol ex_t1 + (1 + lou ex_aro * 1) * cum_demand ex_t1 0 - initial_vol ex_t1 = 55"
  by code_simp

subsection \<open>The extraction of the policy\<close>

lemma bindE_simps [simp]:
  "bindE (Inl e) f = Inl e" "bindE (Inr v) f = f v"
  by (simp_all add: bindE_def)

lemma bindE_Inr_iff: "bindE m f = Inr r \<longleftrightarrow> (\<exists>v. m = Inr v \<and> f v = Inr r)"
  by (cases m) simp_all

lemma set_vars_fields [simp]:
  "var_names (sim (set_vars a k f)) = var_names (sim a)"
  "var_value (sim (set_vars a k f)) = var_value (sim a)"
  "time_range (sim (set_vars a k f)) = time_range (sim a)"
  "num_steps (sim (set_vars a k f)) = num_steps (sim a)"
  "z_shape (set_vars a k f) = z_shape a"
  "x_size (set_vars a k f) = x_size a"
  "tanks (network (sim (set_vars a k f))) = tanks (network (sim a))"
  "network_keys (network (sim (set_vars a k f))) = network_keys (network (sim a))"
  "objs (network (sim (set_vars a k f))) k' =
     (if k' = k then (objs (network (sim a)) k)\<lparr>vars := f\<rparr> else objs (network (sim a)) k')"
  by (simp_all add: set_vars_def network_keys_def)

lemma vars_of_set_vars [simp]:
  "vars_of (set_vars a k f) k' = (if k' = k then f else vars_of a k')"
  by (simp add: vars_of_def)

lemma set_vars_id: "vars_of a k = f \<Longrightarrow> set_vars a k f = a"
  by (auto simp: vars_of_def set_vars_def)

lemma set_vars_eq_self: "set_vars a k f = a \<Longrightarrow> vars_of a k = f"
proof -
  assume "set_vars a k f = a"
  then have "vars_of (set_vars a k f) k = vars_of a k" by simp
  then show ?thesis by simp
qed

lemma skeleton_set_vars:
  "index f = index (vars_of a k) \<Longrightarrow> skeleton (set_vars a k f) = skeleton a"
  by (auto simp: skeleton_def set_vars_def vars_of_def fun_eq_iff)

lemma skeleton_fields:
  assumes "skeleton s1 = skeleton s"
  shows "var_names (sim s1) = var_names (sim s)"
    and "time_range (sim s1) = time_range (sim s)"
    and "z_shape s1 = z_shape s"
    and "tanks (network (sim s1)) = tanks (network (sim s))"
    and "network_keys (network (sim s1)) = network_keys (network (sim s))"
    and "index (vars_of s1 k) = index (vars_of s k)"
    and "flow_refs (objs (network (sim s1)) k) = flow_refs (objs (network (sim s)) k)"
    and "pumps_inflows (objs (network (sim s1)) k) = pumps_inflows (objs (network (sim s)) k)"
    and "cv_inflows (objs (network (sim s1)) k) = cv_inflows (objs (network (sim s)) k)"
    and "vsp_inflows (objs (network (sim s1)) k) = vsp_inflows (objs (network (sim s)) k)"
    and "v_inflows (objs (network (sim s1)) k) = v_inflows (objs (network (sim s)) k)"
    and "pumps_outflows (objs (network (sim s1)) k) = pumps_outflows (objs (network (sim s)) k)"
    and "cv_outflows (objs (network (sim s1)) k) = cv_outflows (objs (network (sim s)) k)"
    and "vsp_outflows (objs (network (sim s1)) k) = vsp_outflows (objs (network (sim s)) k)"
    and "v_outflows (objs (network (sim s1)) k) = v_outflows (objs (network (sim s)) k)"
    and "initial_vol (objs (network (sim s1)) k) = initial_vol (objs (network (sim s)) k)"
proof -
  have f: "var_names (sim (skeleton a)) = var_names (sim a)"
    "time_range (sim (skeleton a)) = time_range (sim a)"
    "z_shape (skeleton a) = z_shape a"
    "tanks (network (sim (skeleton a))) = tanks (network (sim a))"
    "network_keys (network (sim (skeleton a))) = network_keys (network (sim a))"
    "index (vars_of (skeleton a) k) = index (vars_of a k)"
    "pumps_inflows (objs (network (sim (skeleton a))) k) = pumps_inflows (objs (network (sim a)) k)"
    "cv_inflows (objs (network (sim (skeleton a))) k) = cv_inflows (objs (network (sim a)) k)"
    "vsp_inflows (objs (network (sim (skeleton a))) k) = vsp_inflows (objs (network (sim a)) k)"
    "v_inflows (objs (network (sim (skeleton a))) k) = v_inflows (objs (network (sim a)) k)"
    "pumps_outflows (objs (network (sim (skeleton a))) k) = pumps_outflows (objs (network (sim a)) k)"
    "cv_outflows (objs (network (sim (skeleton a))) k) = cv_outflows (objs (network (sim a)) k)"
    "vsp_outflows (objs (network (sim (skeleton a))) k) = vsp_outflows (objs (network (sim a)) k)"
    "v_outflows (objs (network (sim (skeleton a))) k) = v_outflows (objs (network (sim a)) k)"
    "initial_vol (objs (network (sim (skeleton a))) k) = initial_vol (objs (network (sim a)) k)"
    for a
    by (simp_all add: skeleton_def network_keys_def vars_of_def)
  show "var_names (sim s1) = var_names (sim s)" using f(1)[of s1] f(1)[of s] assms by simp
  show "time_range (sim s1) = time_range (sim s)" using f(2)[of s1] f(2)[of s] assms by simp
  show "z_shape s1 = z_shape s" using f(3)[of s1] f(3)[of s] assms by simp
  show "tanks (network (sim s1)) = tanks (network (sim s))"
    using f(4)[of s1] f(4)[of s] assms by simp
  show "network_keys (network (sim s1)) = network_keys (network (sim s))"
    using f(5)[of s1] f(5)[of s] assms by simp
  show "index (vars_of s1 k) = index (vars_of s k)" using f(6)[of s1] f(6)[of s] assms by simp
  show pi: "pumps_inflows (objs (network (sim s1)) k) = pumps_inflows (objs (network (sim s)) k)"
    using f(7)[of s1] f(7)[of s] assms by simp
  show ci: "cv_inflows (objs (network (sim s1)) k) = cv_inflows (objs (network (sim s)) k)"
    using f(8)[of s1] f(8)[of s] assms by simp
  show vi: "vsp_inflows (objs (network (sim s1)) k) = vsp_inflows (objs (network (sim s)) k)"
    using f(9)[of s1] f(9)[of s] assms by simp
  show vvi: "v_inflows (objs (network (sim s1)) k) = v_inflows (objs (network (sim s)) k)"
    using f(10)[of s1] f(10)[of s] assms by simp
  show po: "pumps_outflows (objs (network (sim s1)) k) = pumps_outflows (objs (network (sim s)) k)"
    using f(11)[of s1] f(11)[of s] assms by simp
  show co: "cv_outflows (objs (network (sim s1)) k) = cv_outflows (objs (network (sim s)) k)"
    using f(12)[of s1] f(12)[of s] assms by simp
  show vo: "vsp_outflows (objs (network (sim s1)) k) = vsp_outflows (objs (network (sim s)) k)"
    using f(13)[of s1] f(13)[of s] assms by simp
  show vvo: "v_outflows (objs (network (sim s1)) k) = v_outflows (objs (network (sim s)) k)"
    using f(14)[of s1] f(14)[of s] assms by simp
  show "initial_vol (objs (network (sim s1)) k) = initial_vol (objs (network (sim s)) k)"
    using f(15)[of s1] f(15)[of s] assms by simp
  show "flow_refs (objs (network (sim s1)) k) = flow_refs (objs (network (sim s)) k)"
    by (simp add: flow_refs_def pi ci vi vvi po co vo vvo)
qed


lemma bindE_assoc: "bindE (bindE m f) g = bindE m (\<lambda>v. bindE (f v) g)"
  by (cases m) simp_all

lemma write_value_frame:
  "write_value x nm a = bindE (value_frame x nm a) (\<lambda>f. Inr (set_vars a nm f))"
  by (simp add: write_value_def value_frame_def bindE_assoc split_def)

lemma value_frame_reads:
  assumes "skeleton s1 = skeleton s" and "vars_of s1 k = vars_of s k"
  shows "value_frame x k s1 = value_frame x k s"
proof -
  have "network_getitem (network (sim s1)) k
      = (if k \<in> set (network_keys (network (sim s))) then Inr (objs (network (sim s1)) k)
         else Inl KeyError)"
    by (simp add: network_getitem_def dict_get_def skeleton_fields(5)[OF assms(1)])
  moreover have "network_getitem (network (sim s)) k
      = (if k \<in> set (network_keys (network (sim s))) then Inr (objs (network (sim s)) k)
         else Inl KeyError)"
    by (simp add: network_getitem_def dict_get_def)
  moreover have "vars (objs (network (sim s1)) k) = vars (objs (network (sim s)) k)"
    using assms(2) by (simp add: vars_of_def)
  ultimately have "bindE (network_getitem (network (sim s1)) k) (\<lambda>el. col_assign (vars el) c v)
      = bindE (network_getitem (network (sim s)) k) (\<lambda>el. col_assign (vars el) c v)" for c v
    by simp
  then show ?thesis
    by (simp add: value_frame_def skeleton_fields(1)[OF assms(1)])
qed

lemma assoc_set_triv: "map_of ps k = Some v \<Longrightarrow> assoc_set k v ps = ps"
  by (induction ps) (auto split: if_splits)

lemma col_set_triv: "map_of (cols f) c = Some v \<Longrightarrow> col_set f c v = f"
  by (simp add: col_set_def assoc_set_triv)

lemma col_set_fields [simp]:
  "index (col_set f c v) = index f"
  "map_of (cols (col_set f c v)) = (map_of (cols f))(c \<mapsto> v)"
  by (simp_all add: col_set_def map_of_assoc_set)

lemma value_frame_parts:
  assumes "value_frame x k s = Inr f"
  shows "\<exists>lo hi vals. get_x_idx (var_names (sim s)) k = Inr (lo, hi)
    \<and> np_slice x lo hi = Inr vals \<and> k \<in> set (network_keys (network (sim s)))
    \<and> length vals = length (index (vars_of s k)) \<and> f = col_set (vars_of s k) ''value'' vals"
proof -
  from assms obtain p where p: "get_x_idx (var_names (sim s)) k = Inr p"
    and r1: "(case p of (lo, hi) \<Rightarrow> bindE (np_slice x lo hi) (\<lambda>vals.
               bindE (network_getitem (network (sim s)) k) (\<lambda>el.
                 col_assign (vars el) ''value'' vals))) = Inr f"
    unfolding value_frame_def bindE_Inr_iff by blast
  obtain lo hi where lh: "p = (lo, hi)" by (cases p)
  from r1 obtain vals where v: "np_slice x lo hi = Inr vals"
    and r2: "bindE (network_getitem (network (sim s)) k) (\<lambda>el.
                 col_assign (vars el) ''value'' vals) = Inr f"
    unfolding lh prod.case bindE_Inr_iff by blast
  from r2 obtain el where el: "network_getitem (network (sim s)) k = Inr el"
    and r3: "col_assign (vars el) ''value'' vals = Inr f"
    unfolding bindE_Inr_iff by blast
  have k: "k \<in> set (network_keys (network (sim s)))" "el = objs (network (sim s)) k"
    using el by (simp_all add: network_getitem_def dict_get_def split: if_splits)
  have "length vals = length (index (vars_of s k)) \<and> f = col_set (vars_of s k) ''value'' vals"
    using r3 k(2) by (simp add: col_assign_def vars_of_def split: if_splits)
  then show ?thesis using p lh v k(1) by blast
qed

lemma value_frame_shape:
  assumes "value_frame x k s = Inr f"
  shows "\<exists>vals. f = col_set (vars_of s k) ''value'' vals \<and> length vals = length (index (vars_of s k))"
  using value_frame_parts[OF assms] by blast

lemma value_frame_again:
  assumes "value_frame x k s = Inr f"
  shows "value_frame x k (set_vars s k f) = Inr f"
proof -
  obtain lo hi vals where g: "get_x_idx (var_names (sim s)) k = Inr (lo, hi)"
    "np_slice x lo hi = Inr vals" "k \<in> set (network_keys (network (sim s)))"
    "length vals = length (index (vars_of s k))" "f = col_set (vars_of s k) ''value'' vals"
    using value_frame_parts[OF assms] by blast
  have "col_set f ''value'' vals = f"
    by (rule col_set_triv) (simp add: g(5))
  then show ?thesis
    using g
    by (simp add: value_frame_def network_getitem_def dict_get_def col_assign_def vars_of_def)
qed

text \<open>The step \<open>write_value\<close> of an element leaves the state as it is.\<close>

lemma write_stable_iff:
  "write_value x k s = Inr s \<longleftrightarrow> value_frame x k s = Inr (vars_of s k)"
proof
  assume "write_value x k s = Inr s"
  then obtain f where f: "value_frame x k s = Inr f" "set_vars s k f = s"
    by (auto simp: write_value_frame bindE_Inr_iff)
  then show "value_frame x k s = Inr (vars_of s k)"
    using set_vars_eq_self by blast
next
  assume "value_frame x k s = Inr (vars_of s k)"
  then show "write_value x k s = Inr s"
    by (simp add: write_value_frame set_vars_id)
qed

lemma write_value_step:
  assumes "write_value x nm s = Inr s1"
  shows "skeleton s1 = skeleton s" and "\<And>k. k \<noteq> nm \<Longrightarrow> vars_of s1 k = vars_of s k"
    and "write_value x nm s1 = Inr s1"
proof -
  obtain f where f: "value_frame x nm s = Inr f" "s1 = set_vars s nm f"
    using assms by (auto simp: write_value_frame bindE_Inr_iff)
  obtain vals where v: "f = col_set (vars_of s nm) ''value'' vals"
    using value_frame_shape[OF f(1)] by blast
  show "skeleton s1 = skeleton s"
    unfolding f(2) by (rule skeleton_set_vars) (simp add: v)
  show "vars_of s1 k = vars_of s k" if "k \<noteq> nm" for k
    using that by (simp add: f(2))
  have "value_frame x nm s1 = Inr (vars_of s1 nm)"
    using value_frame_again[OF f(1)] by (simp add: f(2))
  then show "write_value x nm s1 = Inr s1" by (simp add: write_stable_iff)
qed

lemma write_stable_preserved:
  assumes "write_value x k s = Inr s" and "skeleton s1 = skeleton s"
    and "vars_of s1 k = vars_of s k"
  shows "write_value x k s1 = Inr s1"
proof -
  have "value_frame x k s1 = value_frame x k s" by (rule value_frame_reads[OF assms(2,3)])
  also have "\<dots> = Inr (vars_of s k)" using assms(1) by (simp only: write_stable_iff)
  finally show ?thesis by (simp only: write_stable_iff assms(3))
qed


lemma foldE_cong:
  assumes "\<And>x d. x \<in> set xs \<Longrightarrow> f x d = g x d"
  shows "foldE f xs d = foldE g xs d"
  using assms by (induction xs arbitrary: d) (simp_all split: sum.splits)

lemma comb_flow_reads:
  "vars_of s1 x = vars_of s x \<Longrightarrow> comb_flow s1 dir x df = comb_flow s dir x df"
  by (simp add: comb_flow_def vars_of_def)

lemma plain_flow_reads:
  "vars_of s1 x = vars_of s x \<Longrightarrow> plain_flow s1 dir x df = plain_flow s dir x df"
  by (simp add: plain_flow_def vars_of_def)

lemma tank_series_reads:
  assumes "skeleton s1 = skeleton s"
    and "\<forall>x\<in>set (flow_refs (objs (network (sim s)) t)). vars_of s1 x = vars_of s x"
    and "col_get (vars_of s1 t) ''demand'' = col_get (vars_of s t) ''demand''"
  shows "tank_series s1 t = tank_series s t"
proof -
  let ?o = "objs (network (sim s)) t"
  have c: "foldE (comb_flow s1 dir) xs df = foldE (comb_flow s dir) xs df"
    if "set xs \<subseteq> set (flow_refs ?o)" for dir xs df
    by (rule foldE_cong) (use that assms(2) in \<open>auto intro: comb_flow_reads\<close>)
  have p: "foldE (plain_flow s1 dir) xs df = foldE (plain_flow s dir) xs df"
    if "set xs \<subseteq> set (flow_refs ?o)" for dir xs df
    by (rule foldE_cong) (use that assms(2) in \<open>auto intro: plain_flow_reads\<close>)
  have sub: "set (pumps_inflows ?o @ cv_inflows ?o) \<subseteq> set (flow_refs ?o)"
    "set (vsp_inflows ?o @ v_inflows ?o) \<subseteq> set (flow_refs ?o)"
    "set (pumps_outflows ?o @ cv_outflows ?o) \<subseteq> set (flow_refs ?o)"
    "set (vsp_outflows ?o @ v_outflows ?o) \<subseteq> set (flow_refs ?o)"
    by (auto simp: flow_refs_def)
  have d: "col_get (vars (objs (network (sim s1)) t)) ''demand''
      = col_get (vars (objs (network (sim s)) t)) ''demand''"
    using assms(3) by (simp add: vars_of_def)
  show ?thesis
    unfolding tank_series_def Let_def
    by (simp only: skeleton_fields(2,8-16)[OF assms(1)] c[OF sub(1)] p[OF sub(2)] c[OF sub(3)]
        p[OF sub(4)] d)
qed

lemma tank_step_parts:
  assumes "tanks_balance_tank t s = Inr s1"
  shows "\<exists>vol infl. tank_series s t = Inr (vol, infl)
    \<and> s1 = set_vars s t (col_set (col_set (vars_of s t) ''value'' vol) ''inflow'' infl)"
  using assms unfolding tanks_balance_tank_def bindE_Inr_iff vars_of_def
  by (auto split: prod.splits)

lemma tank_frame_idem:
  fixes f :: frame and vol infl :: "real list"
  defines "g \<equiv> col_set (col_set f ''value'' vol) ''inflow'' infl"
  shows "col_set (col_set g ''value'' vol) ''inflow'' infl = g"
    and "col_get g ''demand'' = col_get f ''demand''"
    and "index g = index f"
proof -
  have 1: "col_set g ''value'' vol = g"
    by (rule col_set_triv) (simp add: g_def)
  have 2: "col_set g ''inflow'' infl = g"
    by (rule col_set_triv) (simp add: g_def)
  show "col_set (col_set g ''value'' vol) ''inflow'' infl = g" by (simp only: 1 2)
  show "col_get g ''demand'' = col_get f ''demand''" by (simp add: g_def col_get_def)
  show "index g = index f" by (simp add: g_def)
qed

lemma tank_stable_iff:
  "tanks_balance_tank t s = Inr s \<longleftrightarrow>
     (\<exists>vol infl. tank_series s t = Inr (vol, infl)
        \<and> col_set (col_set (vars_of s t) ''value'' vol) ''inflow'' infl = vars_of s t)"
proof
  assume "tanks_balance_tank t s = Inr s"
  from tank_step_parts[OF this] show "\<exists>vol infl. tank_series s t = Inr (vol, infl)
        \<and> col_set (col_set (vars_of s t) ''value'' vol) ''inflow'' infl = vars_of s t"
    using set_vars_eq_self by metis
next
  assume "\<exists>vol infl. tank_series s t = Inr (vol, infl)
        \<and> col_set (col_set (vars_of s t) ''value'' vol) ''inflow'' infl = vars_of s t"
  then obtain vol infl where h: "tank_series s t = Inr (vol, infl)"
    "col_set (col_set (vars_of s t) ''value'' vol) ''inflow'' infl = vars_of s t"
    by blast
  have "tanks_balance_tank t s
      = Inr (set_vars s t (col_set (col_set (vars_of s t) ''value'' vol) ''inflow'' infl))"
    by (simp add: tanks_balance_tank_def h(1) vars_of_def)
  then show "tanks_balance_tank t s = Inr s"
    by (simp only: h(2) set_vars_id[OF refl])
qed

lemma tank_step:
  assumes "tanks_balance_tank t s = Inr s1" and "t \<notin> set (flow_refs (objs (network (sim s)) t))"
  shows "skeleton s1 = skeleton s" and "\<And>k. k \<noteq> t \<Longrightarrow> vars_of s1 k = vars_of s k"
    and "var_value (sim s1) = var_value (sim s)"
    and "tanks_balance_tank t s1 = Inr s1"
proof -
  obtain vol infl where h: "tank_series s t = Inr (vol, infl)"
    "s1 = set_vars s t (col_set (col_set (vars_of s t) ''value'' vol) ''inflow'' infl)"
    using tank_step_parts[OF assms(1)] by blast
  let ?g = "col_set (col_set (vars_of s t) ''value'' vol) ''inflow'' infl"
  show sk: "skeleton s1 = skeleton s"
    unfolding h(2) by (rule skeleton_set_vars) simp
  show oth: "vars_of s1 k = vars_of s k" if "k \<noteq> t" for k
    using that by (simp add: h(2))
  show "var_value (sim s1) = var_value (sim s)" by (simp add: h(2))
  have g: "vars_of s1 t = ?g" by (simp add: h(2))
  have "\<forall>x\<in>set (flow_refs (objs (network (sim s)) t)). vars_of s1 x = vars_of s x"
    using assms(2) oth by metis
  moreover have "col_get (vars_of s1 t) ''demand'' = col_get (vars_of s t) ''demand''"
    by (simp only: g tank_frame_idem(2))
  ultimately have "tank_series s1 t = Inr (vol, infl)"
    using tank_series_reads[OF sk] h(1) by simp
  moreover have "col_set (col_set (vars_of s1 t) ''value'' vol) ''inflow'' infl = vars_of s1 t"
    by (simp only: g tank_frame_idem(1))
  ultimately show "tanks_balance_tank t s1 = Inr s1"
    unfolding tank_stable_iff by blast
qed

lemma tank_stable_preserved:
  assumes "tanks_balance_tank t s = Inr s" and "skeleton s1 = skeleton s"
    and "vars_of s1 t = vars_of s t"
    and "\<forall>x\<in>set (flow_refs (objs (network (sim s)) t)). vars_of s1 x = vars_of s x"
  shows "tanks_balance_tank t s1 = Inr s1"
proof -
  obtain vol infl where h: "tank_series s t = Inr (vol, infl)"
    "col_set (col_set (vars_of s t) ''value'' vol) ''inflow'' infl = vars_of s t"
    using assms(1) unfolding tank_stable_iff by blast
  have "tank_series s1 t = tank_series s t"
    by (rule tank_series_reads[OF assms(2,4)]) (simp only: assms(3))
  then show ?thesis
    unfolding tank_stable_iff using h by (simp only: assms(3)) blast
qed


lemma foldE_noop:
  assumes "\<And>x. x \<in> set xs \<Longrightarrow> f x s = Inr s"
  shows "foldE f xs s = Inr s"
  using assms by (induction xs) simp_all

lemma foldE_Cons_Inr:
  "foldE f (x # xs) s = Inr s' \<longleftrightarrow> (\<exists>s1. f x s = Inr s1 \<and> foldE f xs s1 = Inr s')"
  by (cases "f x s") simp_all

lemma write_value_var_value:
  assumes "write_value x nm s = Inr s1"
  shows "var_value (sim s1) = var_value (sim s)"
  using assms by (auto simp: write_value_frame bindE_Inr_iff)

lemma write_fold:
  assumes "foldE (write_value x) ks s = Inr s'"
  shows "skeleton s' = skeleton s \<and> var_value (sim s') = var_value (sim s)
    \<and> (\<forall>k. k \<notin> set ks \<longrightarrow> vars_of s' k = vars_of s k)
    \<and> (\<forall>k. k \<in> set ks \<or> write_value x k s = Inr s \<longrightarrow> write_value x k s' = Inr s')"
  using assms
proof (induction ks arbitrary: s)
  case Nil
  then show ?case by simp
next
  case (Cons nm ks)
  from Cons.prems obtain s1 where s1: "write_value x nm s = Inr s1"
    and rest: "foldE (write_value x) ks s1 = Inr s'"
    unfolding foldE_Cons_Inr by blast
  note ih = Cons.IH[OF rest]
  note st = write_value_step[OF s1]
  have sk: "skeleton s' = skeleton s" using ih st(1) by simp
  have vv: "var_value (sim s') = var_value (sim s)"
    using ih write_value_var_value[OF s1] by simp
  have oth: "vars_of s' k = vars_of s k" if "k \<notin> set (nm # ks)" for k
    using that ih st(2)[of k] by simp
  have stab: "write_value x k s' = Inr s'"
    if "k \<in> set (nm # ks) \<or> write_value x k s = Inr s" for k
  proof -
    have "k \<in> set ks \<or> write_value x k s1 = Inr s1"
    proof (cases "k = nm")
      case True
      then show ?thesis using st(3) by simp
    next
      case False
      show ?thesis
      proof (cases "k \<in> set ks")
        case True
        then show ?thesis by simp
      next
        case notin: False
        with that False have "write_value x k s = Inr s" by simp
        then have "write_value x k s1 = Inr s1"
          by (rule write_stable_preserved) (use st(1) st(2)[OF False] in simp_all)
        then show ?thesis by simp
      qed
    qed
    then show ?thesis using ih by blast
  qed
  show ?case using sk vv oth stab by blast
qed

lemma set_var_value_step:
  assumes "set_var_value x s = Inr s1"
  shows "skeleton s1 = skeleton s" and "vars_of s1 k = vars_of s k"
    and "var_value (sim s1) = Some x" and "length x = length (var_names (sim s))"
  using assms
  by (auto simp: set_var_value_def skeleton_def vars_of_def split: if_splits)

lemma set_var_value_noop:
  assumes "var_value (sim s) = Some x" and "length x = length (var_names (sim s))"
  shows "set_var_value x s = Inr s"
  using assms by (simp add: set_var_value_def)

lemma tank_fold:
  assumes "foldE tanks_balance_tank ts s = Inr s'"
    and "set ts \<subseteq> TK"
    and "\<forall>t\<in>TK. \<forall>r\<in>set (flow_refs (objs (network (sim s)) t)). r \<notin> TK"
  shows "skeleton s' = skeleton s \<and> var_value (sim s') = var_value (sim s)
    \<and> (\<forall>k. k \<notin> set ts \<longrightarrow> vars_of s' k = vars_of s k)
    \<and> (\<forall>t. t \<in> set ts \<or> (t \<in> TK \<and> tanks_balance_tank t s = Inr s)
          \<longrightarrow> tanks_balance_tank t s' = Inr s')"
  using assms
proof (induction ts arbitrary: s)
  case Nil
  then show ?case by simp
next
  case (Cons nm ts)
  from Cons.prems(1) obtain s1 where s1: "tanks_balance_tank nm s = Inr s1"
    and rest: "foldE tanks_balance_tank ts s1 = Inr s'"
    unfolding foldE_Cons_Inr by blast
  have nmTK: "nm \<in> TK" and sub: "set ts \<subseteq> TK" using Cons.prems(2) by simp_all
  have refs: "r \<notin> TK" if "t \<in> TK" "r \<in> set (flow_refs (objs (network (sim s)) t))" for t r
    using that Cons.prems(3) by blast
  have self: "nm \<notin> set (flow_refs (objs (network (sim s)) nm))"
    using refs[OF nmTK] nmTK by blast
  note st = tank_step[OF s1 self]
  have refs1: "\<forall>t\<in>TK. \<forall>r\<in>set (flow_refs (objs (network (sim s1)) t)). r \<notin> TK"
    using refs by (simp add: skeleton_fields(7)[OF st(1)])
  note ih = Cons.IH[OF rest sub refs1]
  have sk: "skeleton s' = skeleton s" using ih st(1) by simp
  have vv: "var_value (sim s') = var_value (sim s)" using ih st(3) by simp
  have oth: "vars_of s' k = vars_of s k" if "k \<notin> set (nm # ts)" for k
    using that ih st(2)[of k] by simp
  have stab: "tanks_balance_tank t s' = Inr s'"
    if "t \<in> set (nm # ts) \<or> (t \<in> TK \<and> tanks_balance_tank t s = Inr s)" for t
  proof -
    have "t \<in> set ts \<or> (t \<in> TK \<and> tanks_balance_tank t s1 = Inr s1)"
    proof (cases "t = nm")
      case True
      then show ?thesis using st(4) nmTK by simp
    next
      case False
      show ?thesis
      proof (cases "t \<in> set ts")
        case True
        then show ?thesis by simp
      next
        case notin: False
        with that False have t: "t \<in> TK" "tanks_balance_tank t s = Inr s" by simp_all
        have "\<forall>r\<in>set (flow_refs (objs (network (sim s)) t)). vars_of s1 r = vars_of s r"
          using refs[OF t(1)] nmTK st(2) by metis
        then have "tanks_balance_tank t s1 = Inr s1"
          using tank_stable_preserved[OF t(2) st(1) st(2)[OF False]] by blast
        then show ?thesis using t(1) by simp
      qed
    qed
    then show ?thesis using ih by blast
  qed
  show ?case using sk vv oth stab by blast
qed

lemma extraction_okD:
  assumes "extraction_ok a"
  shows "\<And>nm. nm \<in> set (var_names (sim a)) \<Longrightarrow> nm \<notin> set (tanks (network (sim a)))"
    and "\<forall>t\<in>set (tanks (network (sim a))).
           \<forall>r\<in>set (flow_refs (objs (network (sim a)) t)). r \<notin> set (tanks (network (sim a)))"
  using assms by (auto simp: extraction_ok_def list_all_iff)

lemma get_results_parts:
  assumes "get_results a sol sample = Inr a'"
  shows "\<exists>x a1 a2. retrieve_decision_vars a sol sample = Inr x
    \<and> foldE (write_value x) (unique (var_names (sim a))) a = Inr a1
    \<and> set_var_value x a1 = Inr a2 \<and> tanks_balance a2 = Inr a'"
  using assms unfolding get_results_def bindE_Inr_iff by blast

lemma retrieve_reads:
  assumes "z_shape s1 = z_shape s"
  shows "retrieve_decision_vars s1 sol sample = retrieve_decision_vars s sol sample"
  unfolding retrieve_decision_vars_def assms ..

lemma get_results_post:
  assumes ok: "extraction_ok a" and run: "get_results a sol sample = Inr a'"
  shows "\<exists>x. retrieve_decision_vars a sol sample = Inr x \<and> skeleton a' = skeleton a
    \<and> var_value (sim a') = Some x \<and> length x = length (var_names (sim a))
    \<and> (\<forall>k\<in>set (var_names (sim a)). write_value x k a' = Inr a')
    \<and> (\<forall>t\<in>set (tanks (network (sim a))). tanks_balance_tank t a' = Inr a')"
proof -
  obtain x a1 a2 where x: "retrieve_decision_vars a sol sample = Inr x"
    and w: "foldE (write_value x) (unique (var_names (sim a))) a = Inr a1"
    and v: "set_var_value x a1 = Inr a2" and t: "tanks_balance a2 = Inr a'"
    using get_results_parts[OF run] by blast
  let ?K = "unique (var_names (sim a))"
  let ?TK = "tanks (network (sim a))"
  note wf = write_fold[OF w]
  note vs = set_var_value_step[OF v]
  have sk2: "skeleton a2 = skeleton a" using wf vs(1) by simp
  have tk2: "tanks (network (sim a2)) = ?TK" by (rule skeleton_fields(4)[OF sk2])
  have t': "foldE tanks_balance_tank ?TK a2 = Inr a'"
    using t by (simp add: tanks_balance_def tk2)
  have refs2: "\<forall>t\<in>set ?TK. \<forall>r\<in>set (flow_refs (objs (network (sim a2)) t)). r \<notin> set ?TK"
    using extraction_okD(2)[OF ok] by (simp add: skeleton_fields(7)[OF sk2])
  note tf = tank_fold[OF t' subset_refl refs2]
  have sk': "skeleton a' = skeleton a" using tf sk2 by simp
  have wst: "write_value x k a' = Inr a'" if "k \<in> set (var_names (sim a))" for k
  proof -
    have "write_value x k a1 = Inr a1" using wf that by (simp add: set_unique)
    then have "write_value x k a2 = Inr a2"
      by (rule write_stable_preserved) (use vs(1,2) in simp_all)
    moreover have "k \<notin> set ?TK"
      using extraction_okD(1)[OF ok, of k] that by simp
    then have "vars_of a' k = vars_of a2 k" using tf by blast
    ultimately show ?thesis
      using write_stable_preserved[of x k a2 a'] tf by blast
  qed
  have vv: "var_value (sim a') = Some x" using tf vs(3) by simp
  have len: "length x = length (var_names (sim a))"
    using vs(4) skeleton_fields(1)[of a1 a] wf by simp
  have tst: "\<forall>t\<in>set ?TK. tanks_balance_tank t a' = Inr a'" using tf by blast
  show ?thesis using x sk' vv len wst tst by blast
qed

lemma get_results_stable:
  assumes ok: "extraction_ok a" and run: "get_results a sol sample = Inr a'"
  shows "get_results a' sol sample = Inr a'"
    and "retrieve_decision_vars a' sol sample = retrieve_decision_vars a sol sample"
proof -
  obtain x where x: "retrieve_decision_vars a sol sample = Inr x"
    and sk': "skeleton a' = skeleton a" and vv: "var_value (sim a') = Some x"
    and len: "length x = length (var_names (sim a))"
    and wst: "\<And>k. k \<in> set (var_names (sim a)) \<Longrightarrow> write_value x k a' = Inr a'"
    and tst: "\<And>t. t \<in> set (tanks (network (sim a))) \<Longrightarrow> tanks_balance_tank t a' = Inr a'"
    using get_results_post[OF ok run] by blast
  have names: "var_names (sim a') = var_names (sim a)" by (rule skeleton_fields(1)[OF sk'])
  have z: "z_shape a' = z_shape a" by (rule skeleton_fields(3)[OF sk'])
  show r: "retrieve_decision_vars a' sol sample = retrieve_decision_vars a sol sample"
    by (rule retrieve_reads[OF z])
  have 1: "foldE (write_value x) (unique (var_names (sim a'))) a' = Inr a'"
    unfolding names by (rule foldE_noop) (rule wst, simp add: set_unique)
  have 2: "set_var_value x a' = Inr a'"
    by (rule set_var_value_noop[OF vv]) (simp add: names len)
  have "foldE tanks_balance_tank (tanks (network (sim a))) a' = Inr a'"
    by (rule foldE_noop) (rule tst)
  then have 3: "tanks_balance a' = Inr a'"
    by (simp add: tanks_balance_def skeleton_fields(4)[OF sk'])
  show "get_results a' sol sample = Inr a'"
    unfolding get_results_def by (simp only: r x bindE_simps 1 2 3)
qed


text \<open>
  C10. Policy extraction is deterministic. For a fixed solved model and a fixed
  realization (\<open>None\<close> is the default, all zeros), on a network where no element of the
  decision table is a tank and no tank feeds a tank: when \<open>get_results\<close> has run, the
  decision rule evaluates on the object it left to the same decision values, and a
  second run of \<open>get_results\<close> raises nothing and leaves the object exactly as the first
  did, every table of every element and the column \<open>value\<close> of \<open>sim.vars\<close> included.
\<close>

theorem get_results_deterministic:
  assumes "extraction_ok a" and "get_results a sol sample = Inr a'"
  shows "retrieve_decision_vars a' sol sample = retrieve_decision_vars a sol sample
    \<and> get_results a' sol sample = Inr a'"
  using get_results_stable[OF assms] by simp

theorem get_results_deterministic_witness:
  "extraction_ok ex_aro
   \<and> (\<exists>a'. get_results ex_aro ex_sol (Some [1 / 2, - 1 / 2]) = Inr a'
         \<and> retrieve_decision_vars a' ex_sol (Some [1 / 2, - 1 / 2]) = Inr [1, 0, 0, 1, 20, 27]
         \<and> get_results a' ex_sol (Some [1 / 2, - 1 / 2]) = Inr a'
         \<and> col_get (vars_of a' ''vsp1'') ''value'' = Inr [20, 27]
         \<and> col_get (vars_of a' ''t1'') ''value'' = Inr [60, 173])"
proof -
  let ?s = "Some [1 / 2, - 1 / 2 :: real]"
  have ok: "extraction_ok ex_aro" by code_simp
  have "case get_results ex_aro ex_sol ?s of
          Inl e \<Rightarrow> False
        | Inr a' \<Rightarrow> col_get (vars_of a' ''vsp1'') ''value'' = Inr [20, 27]
            \<and> col_get (vars_of a' ''t1'') ''value'' = Inr [60, 173]"
    by code_simp
  then obtain a' where run: "get_results ex_aro ex_sol ?s = Inr a'"
    and v: "col_get (vars_of a' ''vsp1'') ''value'' = Inr [20, 27]"
      "col_get (vars_of a' ''t1'') ''value'' = Inr [60, 173]"
    by (auto split: sum.splits)
  have x: "retrieve_decision_vars ex_aro ex_sol ?s = Inr [1, 0, 0, 1, 20, 27]"
    by code_simp
  from get_results_deterministic[OF ok run] x show ?thesis
    using ok run v by auto
qed

subsection \<open>The status of the solver\<close>

lemma foldE_inv:
  assumes "I s" and "\<And>x s. x \<in> set xs \<Longrightarrow> I s \<Longrightarrow> \<exists>s'. f x s = Inr s' \<and> I s'"
  shows "\<exists>s'. foldE f xs s = Inr s' \<and> I s'"
  using assms
proof (induction xs arbitrary: s)
  case Nil
  then show ?case by simp
next
  case (Cons x xs)
  obtain s1 where s1: "f x s = Inr s1" "I s1"
    using Cons.prems(2)[of x s] Cons.prems(1) by auto
  have "\<exists>s'. foldE f xs s1 = Inr s' \<and> I s'"
    by (rule Cons.IH[OF s1(2)]) (use Cons.prems(2) in auto)
  then show ?case using s1(1) by simp
qed

lemma foldE_ok:
  assumes "\<And>x d. x \<in> set xs \<Longrightarrow> \<exists>d'. f x d = Inr d'"
  shows "\<exists>d'. foldE f xs d = Inr d'"
  using foldE_inv[of "\<lambda>_. True" d xs f] assms by auto

lemma has_col_map: "has_col s k c \<longleftrightarrow> map_of (cols (vars_of s k)) c \<noteq> None"
  by (simp add: has_col_def map_of_eq_None_iff)

lemma has_col_get: "has_col s k c \<Longrightarrow> \<exists>v. col_get (vars_of s k) c = Inr v"
  by (auto simp: has_col_map col_get_def)

lemma has_col_set_vars:
  "has_col (set_vars s k (col_set f c v)) k' c'
     \<longleftrightarrow> (if k' = k then c' = c \<or> map_of (cols f) c' \<noteq> None else has_col s k' c')"
  by (simp add: has_col_map)

lemma skeleton_block:
  assumes "skeleton s1 = skeleton s"
  shows "block s1 k = block s k"
proof -
  have f: "block (skeleton a) k = block a k" for a
    by (simp add: block_def skeleton_def state_count_def)
  show ?thesis using f[of s1] f[of s] assms by simp
qed

lemma value_frame_ok:
  assumes "layout_ok a" and "nm \<in> set (var_names (sim a))" and "length x = x_size a"
    and "length (index (vars_of a nm))
           = state_count (objs (network (sim a)) nm) * num_steps (sim a)"
  shows "value_frame x nm a = Inr (col_set (vars_of a nm) ''value'' (take_x x (block a nm)))"
proof -
  have len: "length (take_x x (block a nm)) = length (index (vars_of a nm))"
    by (simp add: take_x_def block_def assms(4))
  have sl: "np_slice x (Num (int (block_of (var_names (sim a)) nm)))
           (Num (int (block_of (var_names (sim a)) nm
                     + state_count (objs (network (sim a)) nm) * num_steps (sim a))))
        = Inr (take_x x (block a nm))"
    unfolding np_slice_def assms(3) by (simp only: layout_slice(2)[OF assms(1,2)] bindE_simps)
  have key: "network_getitem (network (sim a)) nm = Inr (objs (network (sim a)) nm)"
    using layout_okD(1)[OF assms(1,2)] by (simp add: network_getitem_def dict_get_def)
  have ca: "col_assign (vars (objs (network (sim a)) nm)) ''value'' (take_x x (block a nm))
      = Inr (col_set (vars_of a nm) ''value'' (take_x x (block a nm)))"
    using len by (simp add: col_assign_def vars_of_def)
  show ?thesis
    unfolding value_frame_def
    by (simp only: layout_slice(1)[OF assms(1,2)] bindE_simps prod.case sl key ca)
qed

lemma value_frame_skeleton:
  assumes "skeleton s1 = skeleton s" and "value_frame x k s = Inr f"
  shows "\<exists>vals. col_get f ''value'' = Inr vals
    \<and> value_frame x k s1 = Inr (col_set (vars_of s1 k) ''value'' vals)"
proof -
  obtain lo hi vals where g: "get_x_idx (var_names (sim s)) k = Inr (lo, hi)"
    "np_slice x lo hi = Inr vals" "k \<in> set (network_keys (network (sim s)))"
    "length vals = length (index (vars_of s k))" "f = col_set (vars_of s k) ''value'' vals"
    using value_frame_parts[OF assms(2)] by blast
  have 1: "col_get f ''value'' = Inr vals" by (simp add: g(5) col_get_def)
  have n: "var_names (sim s1) = var_names (sim s)" by (rule skeleton_fields(1)[OF assms(1)])
  have key: "network_getitem (network (sim s1)) k = Inr (objs (network (sim s1)) k)"
    using g(3) by (simp add: network_getitem_def dict_get_def skeleton_fields(5)[OF assms(1)])
  have "length vals = length (index (vars_of s1 k))"
    using g(4) by (simp add: skeleton_fields(6)[OF assms(1)])
  then have ca: "col_assign (vars (objs (network (sim s1)) k)) ''value'' vals
      = Inr (col_set (vars_of s1 k) ''value'' vals)"
    by (simp add: col_assign_def vars_of_def)
  have "value_frame x k s1 = Inr (col_set (vars_of s1 k) ''value'' vals)"
    unfolding value_frame_def by (simp only: n g(1,2) bindE_simps prod.case key ca)
  then show ?thesis using 1 by blast
qed

lemma write_fold_ok:
  assumes "\<And>k. k \<in> set ks \<Longrightarrow> \<exists>f. value_frame x k a = Inr f"
  shows "\<exists>s'. foldE (write_value x) ks a = Inr s'
    \<and> skeleton s' = skeleton a \<and> (\<forall>k c. has_col a k c \<longrightarrow> has_col s' k c)"
proof (rule foldE_inv[where I = "\<lambda>s. skeleton s = skeleton a
    \<and> (\<forall>k c. has_col a k c \<longrightarrow> has_col s k c)"])
  show "skeleton a = skeleton a \<and> (\<forall>k c. has_col a k c \<longrightarrow> has_col a k c)" by simp
next
  fix nm s
  assume nm: "nm \<in> set ks"
    and I: "skeleton s = skeleton a \<and> (\<forall>k c. has_col a k c \<longrightarrow> has_col s k c)"
  obtain f where f: "value_frame x nm a = Inr f" using assms[OF nm] by blast
  obtain vals where v: "value_frame x nm s = Inr (col_set (vars_of s nm) ''value'' vals)"
    using value_frame_skeleton[OF conjunct1[OF I] f] by blast
  let ?s1 = "set_vars s nm (col_set (vars_of s nm) ''value'' vals)"
  have 1: "write_value x nm s = Inr ?s1" by (simp add: write_value_frame v)
  have 2: "skeleton ?s1 = skeleton s" by (rule skeleton_set_vars) simp
  have 3: "has_col ?s1 k c" if "has_col s k c" for k c
    using that by (auto simp: has_col_set_vars has_col_map)
  show "\<exists>s'. write_value x nm s = Inr s'
    \<and> (skeleton s' = skeleton a \<and> (\<forall>k c. has_col a k c \<longrightarrow> has_col s' k c))"
    using 1 2 3 I by auto
qed

lemma write_stable_col:
  assumes "write_value x k s = Inr s"
  shows "\<exists>vals. value_frame x k s = Inr (col_set (vars_of s k) ''value'' vals)
    \<and> col_get (vars_of s k) ''value'' = Inr vals"
proof -
  have f: "value_frame x k s = Inr (vars_of s k)" using assms by (simp only: write_stable_iff)
  obtain vals where v: "vars_of s k = col_set (vars_of s k) ''value'' vals"
    using value_frame_shape[OF f] by blast
  have "map_of (cols (col_set (vars_of s k) ''value'' vals)) ''value'' = Some vals" by simp
  then have "map_of (cols (vars_of s k)) ''value'' = Some vals" using v by simp
  then have "col_get (vars_of s k) ''value'' = Inr vals" by (simp add: col_get_def)
  then show ?thesis using f v by auto
qed

lemma comb_flow_ok:
  assumes "has_col s r ''flow''" and "has_col s r ''value''"
  shows "\<exists>d'. comb_flow s dir r df = Inr d'"
proof -
  obtain fl where fl: "col_get (vars_of s r) ''flow'' = Inr fl"
    using has_col_get[OF assms(1)] by blast
  obtain v where v: "col_get (vars_of s r) ''value'' = Inr v"
    using has_col_get[OF assms(2)] by blast
  show ?thesis
    using fl v by (simp add: comb_flow_def vars_of_def)
qed

lemma plain_flow_ok:
  assumes "has_col s r ''value''"
  shows "\<exists>d'. plain_flow s dir r df = Inr d'"
proof -
  obtain v where v: "col_get (vars_of s r) ''value'' = Inr v"
    using has_col_get[OF assms] by blast
  show ?thesis
    using v by (simp add: plain_flow_def vars_of_def)
qed

lemma tank_series_ok:
  assumes "\<forall>r\<in>set (comb_refs (objs (network (sim s)) t)). has_col s r ''flow''"
    and "\<forall>r\<in>set (flow_refs (objs (network (sim s)) t)). has_col s r ''value''"
    and "has_col s t ''demand''"
  shows "\<exists>p. tank_series s t = Inr p"
proof -
  let ?o = "objs (network (sim s)) t"
  have c: "\<exists>d'. foldE (comb_flow s dir) xs df = Inr d'"
    if "set xs \<subseteq> set (comb_refs ?o)" for dir xs df
  proof (rule foldE_ok)
    fix r d
    assume "r \<in> set xs"
    then have r: "r \<in> set (comb_refs ?o)" using that by blast
    then have "r \<in> set (flow_refs ?o)" by (auto simp: comb_refs_def flow_refs_def)
    then show "\<exists>d'. comb_flow s dir r d = Inr d'"
      using comb_flow_ok[of s r dir d] assms(1,2) r by blast
  qed
  have p: "\<exists>d'. foldE (plain_flow s dir) xs df = Inr d'"
    if "set xs \<subseteq> set (flow_refs ?o)" for dir xs df
  proof (rule foldE_ok)
    fix r d
    assume "r \<in> set xs"
    then have "r \<in> set (flow_refs ?o)" using that by blast
    then show "\<exists>d'. plain_flow s dir r d = Inr d'"
      using plain_flow_ok[of s r dir d] assms(2) by blast
  qed
  have sub: "set (pumps_inflows ?o @ cv_inflows ?o) \<subseteq> set (comb_refs ?o)"
    "set (vsp_inflows ?o @ v_inflows ?o) \<subseteq> set (flow_refs ?o)"
    "set (pumps_outflows ?o @ cv_outflows ?o) \<subseteq> set (comb_refs ?o)"
    "set (vsp_outflows ?o @ v_outflows ?o) \<subseteq> set (flow_refs ?o)"
    by (auto simp: flow_refs_def comb_refs_def)
  obtain d1 where d1: "foldE (comb_flow s 1) (pumps_inflows ?o @ cv_inflows ?o)
      [replicate (length (time_range (sim s))) 0] = Inr d1"
    using c[OF sub(1)] by blast
  obtain d2 where d2: "foldE (plain_flow s 1) (vsp_inflows ?o @ v_inflows ?o) d1 = Inr d2"
    using p[OF sub(2)] by blast
  obtain d3 where d3: "foldE (comb_flow s (- 1)) (pumps_outflows ?o @ cv_outflows ?o) d2 = Inr d3"
    using c[OF sub(3)] by blast
  obtain d4 where d4: "foldE (plain_flow s (- 1)) (vsp_outflows ?o @ v_outflows ?o) d3 = Inr d4"
    using p[OF sub(4)] by blast
  obtain dm where dm: "col_get (vars ?o) ''demand'' = Inr dm"
    using has_col_get[OF assms(3)] by (auto simp: vars_of_def)
  show ?thesis
    unfolding tank_series_def Let_def
    by (simp only: d1 d2 d3 d4 dm bindE_simps) blast
qed

lemma skeleton_comb_refs:
  assumes "skeleton s1 = skeleton s"
  shows "comb_refs (objs (network (sim s1)) k) = comb_refs (objs (network (sim s)) k)"
  by (simp only: comb_refs_def skeleton_fields(8,9,12,13)[OF assms])

lemma tank_fold_ok:
  assumes "\<forall>t\<in>set ts. has_col a t ''demand''
      \<and> (\<forall>r\<in>set (comb_refs (objs (network (sim a)) t)). has_col a r ''flow'')
      \<and> (\<forall>r\<in>set (flow_refs (objs (network (sim a)) t)). has_col a r ''value'')"
  shows "\<exists>s'. foldE tanks_balance_tank ts a = Inr s'"
proof -
  let ?I = "\<lambda>s. skeleton s = skeleton a \<and> (\<forall>k c. has_col a k c \<longrightarrow> has_col s k c)"
  have "\<exists>s'. foldE tanks_balance_tank ts a = Inr s' \<and> ?I s'"
  proof (rule foldE_inv[where I = ?I])
    show "?I a" by simp
  next
    fix t s
    assume t: "t \<in> set ts" and I: "?I s"
    have sk: "skeleton s = skeleton a" using I by simp
    have mono: "has_col s k c" if "has_col a k c" for k c using that I by blast
    have "\<exists>p. tank_series s t = Inr p"
    proof (rule tank_series_ok)
      show "\<forall>r\<in>set (comb_refs (objs (network (sim s)) t)). has_col s r ''flow''"
        unfolding skeleton_comb_refs[OF sk] using assms t mono by blast
      show "\<forall>r\<in>set (flow_refs (objs (network (sim s)) t)). has_col s r ''value''"
        unfolding skeleton_fields(7)[OF sk] using assms t mono by blast
      show "has_col s t ''demand''" using assms t mono by blast
    qed
    then obtain vol infl where p: "tank_series s t = Inr (vol, infl)" by fastforce
    let ?s1 = "set_vars s t (col_set (col_set (vars_of s t) ''value'' vol) ''inflow'' infl)"
    have 1: "tanks_balance_tank t s = Inr ?s1"
      by (simp add: tanks_balance_tank_def p vars_of_def)
    have 2: "skeleton ?s1 = skeleton s" by (rule skeleton_set_vars) simp
    have 3: "has_col ?s1 k c" if "has_col s k c" for k c
      using that by (auto simp: has_col_set_vars has_col_map)
    show "\<exists>s'. tanks_balance_tank t s = Inr s' \<and> ?I s'"
      using 1 2 3 sk mono by auto
  qed
  then show ?thesis by blast
qed

lemma results_readyD:
  assumes "results_ready a sol"
  shows "length (x_const sol) = x_size a" and "length (x_coef sol) = x_size a"
    and "\<And>nm. nm \<in> set (var_names (sim a)) \<Longrightarrow>
           length (index (vars_of a nm))
             = state_count (objs (network (sim a)) nm) * num_steps (sim a)"
    and "\<And>t. t \<in> set (tanks (network (sim a))) \<Longrightarrow> has_col a t ''demand''"
    and "\<And>t r. t \<in> set (tanks (network (sim a))) \<Longrightarrow>
           r \<in> set (flow_refs (objs (network (sim a)) t)) \<Longrightarrow> r \<in> set (var_names (sim a))"
    and "\<And>t r. t \<in> set (tanks (network (sim a))) \<Longrightarrow>
           r \<in> set (comb_refs (objs (network (sim a)) t)) \<Longrightarrow> has_col a r ''flow''"
  using assms by (auto simp: results_ready_def list_all_iff)

lemma retrieve_ok:
  assumes "length (x_const sol) = n" and "length (x_coef sol) = n"
  shows "\<exists>x. retrieve_decision_vars a sol None = Inr x \<and> length x = n"
  using assms by (simp add: retrieve_decision_vars_def)

lemma col_get_has_col: "col_get (vars_of s k) c = Inr v \<Longrightarrow> has_col s k c"
  by (auto simp: has_col_map col_get_def split: option.splits)

lemma get_results_ok:
  assumes lay: "layout_ok a" and rdy: "results_ready a sol"
  shows "\<exists>a'. get_results a sol None = Inr a'"
proof -
  let ?K = "unique (var_names (sim a))"
  let ?TK = "tanks (network (sim a))"
  obtain x where x: "retrieve_decision_vars a sol None = Inr x" and len: "length x = x_size a"
    using retrieve_ok[OF results_readyD(1,2)[OF rdy]] by blast
  have xs: "x_size a = length (var_names (sim a))" using lay by (simp add: layout_ok_def)
  have vf: "\<exists>f. value_frame x k a = Inr f" if "k \<in> set ?K" for k
  proof -
    have k: "k \<in> set (var_names (sim a))" using that by (simp add: set_unique)
    show ?thesis
      using value_frame_ok[OF lay k len results_readyD(3)[OF rdy k]] by blast
  qed
  obtain a1 where w: "foldE (write_value x) ?K a = Inr a1" and sk1: "skeleton a1 = skeleton a"
    and mono1: "\<And>k c. has_col a k c \<Longrightarrow> has_col a1 k c"
    using write_fold_ok[of ?K x a] vf by blast
  note wf = write_fold[OF w]
  have n1: "var_names (sim a1) = var_names (sim a)" by (rule skeleton_fields(1)[OF sk1])
  obtain a2 where v: "set_var_value x a1 = Inr a2"
    by (simp add: set_var_value_def len xs n1)
  note vs = set_var_value_step[OF v]
  have sk2: "skeleton a2 = skeleton a" using vs(1) sk1 by simp
  have hc2: "has_col a2 k c \<longleftrightarrow> has_col a1 k c" for k c
    by (simp add: has_col_def vs(2))
  have val: "has_col a2 k ''value''" if "k \<in> set (var_names (sim a))" for k
  proof -
    have "write_value x k a1 = Inr a1" using wf that by (simp add: set_unique)
    from write_stable_col[OF this] obtain vals
      where "col_get (vars_of a1 k) ''value'' = Inr vals" by blast
    then have "has_col a1 k ''value''" by (rule col_get_has_col)
    then show ?thesis by (simp add: hc2)
  qed
  have tk2: "tanks (network (sim a2)) = ?TK" by (rule skeleton_fields(4)[OF sk2])
  have "\<exists>a'. foldE tanks_balance_tank ?TK a2 = Inr a'"
  proof (rule tank_fold_ok, intro ballI conjI)
    fix t
    assume t: "t \<in> set ?TK"
    show "has_col a2 t ''demand''"
      using results_readyD(4)[OF rdy t] mono1 by (simp add: hc2)
  next
    fix t r
    assume t: "t \<in> set ?TK" and "r \<in> set (comb_refs (objs (network (sim a2)) t))"
    then have "r \<in> set (comb_refs (objs (network (sim a)) t))"
      by (simp only: skeleton_comb_refs[OF sk2])
    then show "has_col a2 r ''flow''"
      using results_readyD(6)[OF rdy t] mono1 by (simp add: hc2)
  next
    fix t r
    assume t: "t \<in> set ?TK" and "r \<in> set (flow_refs (objs (network (sim a2)) t))"
    then have "r \<in> set (flow_refs (objs (network (sim a)) t))"
      by (simp only: skeleton_fields(7)[OF sk2])
    then show "has_col a2 r ''value''"
      using results_readyD(5)[OF rdy t] val by blast
  qed
  then obtain a' where t: "tanks_balance a2 = Inr a'"
    by (auto simp: tanks_balance_def tk2)
  have "get_results a sol None = Inr a'"
    unfolding get_results_def by (simp only: x w v t bindE_simps)
  then show ?thesis by blast
qed

lemma populated_after:
  assumes lay: "layout_ok a" and rdy: "results_ready a sol" and sk: "skeleton a' = skeleton a"
    and vv: "var_value (sim a') = Some x" and len: "length x = length (var_names (sim a))"
    and wst: "\<And>k. k \<in> set (var_names (sim a)) \<Longrightarrow> write_value x k a' = Inr a'"
  shows "populated x a'"
proof -
  have xs: "length x = x_size a" using lay len by (simp add: layout_ok_def)
  have names: "var_names (sim a') = var_names (sim a)" by (rule skeleton_fields(1)[OF sk])
  have "col_get (vars_of a' nm) ''value'' = Inr (take_x x (block a' nm))"
    if nm: "nm \<in> set (var_names (sim a))" for nm
  proof -
    let ?v = "take_x x (block a nm)"
    have "value_frame x nm a = Inr (col_set (vars_of a nm) ''value'' ?v)"
      by (rule value_frame_ok[OF lay nm xs results_readyD(3)[OF rdy nm]])
    from value_frame_skeleton[OF sk this] obtain v1
      where v1: "col_get (col_set (vars_of a nm) ''value'' ?v) ''value'' = Inr v1"
        "value_frame x nm a' = Inr (col_set (vars_of a' nm) ''value'' v1)"
      by blast
    have e1: "v1 = ?v" using v1(1) by (simp add: col_get_def)
    from write_stable_col[OF wst[OF nm]] obtain v2
      where v2: "value_frame x nm a' = Inr (col_set (vars_of a' nm) ''value'' v2)"
        "col_get (vars_of a' nm) ''value'' = Inr v2"
      by blast
    have "col_set (vars_of a' nm) ''value'' v1 = col_set (vars_of a' nm) ''value'' v2"
      using v1(2) v2(1) by simp
    then have "map_of (cols (col_set (vars_of a' nm) ''value'' v1)) ''value''
        = map_of (cols (col_set (vars_of a' nm) ''value'' v2)) ''value''"
      by simp
    then have "v1 = v2" by simp
    then show ?thesis using v2(2) e1 by (simp add: skeleton_block[OF sk])
  qed
  then show ?thesis
    using vv by (simp add: populated_def list_all_iff names)
qed

text \<open>
  With a solution whose status code is a key of the table, on a network laid out as
  the decision table says and a solved rule of the size of \<open>x\<close>, \<open>solve\<close> raises nothing
  and returns the pair of the status string and the objective value, and it leaves
  the decision values of the nominal realization in the network.
\<close>

lemma solve_returns_pair:
  assumes "GRB_STATUS (sol_status sol) = Some status"
    and "layout_ok a" and "extraction_ok a" and "results_ready a sol"
  shows "\<exists>a' x. solve a (Some sol) = Inr ((status, sol_obj sol), a')
    \<and> retrieve_decision_vars a sol None = Inr x \<and> populated x a'"
proof -
  obtain a' where run: "get_results a sol None = Inr a'"
    using get_results_ok[OF assms(2,4)] by blast
  obtain x where x: "retrieve_decision_vars a sol None = Inr x"
    and sk: "skeleton a' = skeleton a" and vv: "var_value (sim a') = Some x"
    and len: "length x = length (var_names (sim a))"
    and wst: "\<And>k. k \<in> set (var_names (sim a)) \<Longrightarrow> write_value x k a' = Inr a'"
    using get_results_post[OF assms(3) run] by blast
  have "solve a (Some sol) = Inr ((status, sol_obj sol), a')"
    by (simp add: solve_def model_get_def assms(1) run)
  moreover have "populated x a'"
    by (rule populated_after[OF assms(2,4) sk vv len wst])
  ultimately show ?thesis using x by blast
qed

lemma ex_solve_optimal:
  "\<exists>a'. solve ex_aro (Some ex_sol) = Inr ((''OPTIMAL'', 1234), a')
         \<and> populated [1, 0, 0, 1, 20, 25] a'"
proof -
  have st: "GRB_STATUS (sol_status ex_sol) = Some ''OPTIMAL''"
    by (simp add: GRB_STATUS_def ex_sol_def)
  have h: "extraction_ok ex_aro" "results_ready ex_aro ex_sol"
    by code_simp+
  have x: "retrieve_decision_vars ex_aro ex_sol None = Inr [1, 0, 0, 1, 20, 25]"
    by code_simp
  have obj: "sol_obj ex_sol = 1234" by (simp add: ex_sol_def)
  from solve_returns_pair[OF st ex_layout_ok h] x obj show ?thesis
    by auto
qed

text \<open>
  C9 fails on the code when the solver ends without a solution, as it does on an
  infeasible or an unbounded model: line 306 reads the objective value before line 307
  translates the status, and raises \<open>RuntimeError\<close>. \<open>solve\<close> returns no pair then, though
  the table \<open>GRB_STATUS\<close> holds the strings of these status codes.
\<close>

theorem solve_no_solution_raises:
  "solve ex_aro None = Inl RuntimeError
   \<and> GRB_STATUS 3 = Some ''INFEASIBLE'' \<and> GRB_STATUS 4 = Some ''INF_OR_UNBD''
   \<and> GRB_STATUS 5 = Some ''UNBOUNDED''"
  by (simp add: solve_def model_get_def GRB_STATUS_def)

subsection \<open>The loop over the no-change records\<close>







end
